theory Spec2Isabelle
  imports Main "HOL-Library.Char_ord" "HOL-Library.List_Lexorder" "HOL-Library.Multiset"
    "HOL-Library.Sublist" "HOL-Library.Word"
begin

unbundle bit_operations_syntax

section \<open>JSON texts and Go values\<close>

text \<open>
  The codec of \<^verbatim>\<open>aws/iam_policy_model.go\<close> reads and writes JSON through Go's
  \<^verbatim>\<open>encoding/json\<close>. A JSON text is modelled by its syntax tree: the members of an
  object are kept in the order of the text, repeated names included, so that equal trees
  stand for equal compact texts as \<^verbatim>\<open>json.Marshal\<close> writes them. Strings are byte
  strings, taken to be valid UTF-8.

  A \<^verbatim>\<open>float64\<close> is its 64 bits (\<^verbatim>\<open>math.Float64bits\<close>): sign, eleven bits of
  exponent, fifty-two of mantissa; it is finite unless the exponent bits are all ones.
  The only thing the library does with a number literal is \<^verbatim>\<open>strconv.ParseFloat\<close>,
  so a literal is carried by what that call returns for it: the nearest \<^verbatim>\<open>float64\<close>,
  or an infinity when the literal is out of range (never a NaN), which
  \<^verbatim>\<open>json.Unmarshal\<close> then reports as an \<^verbatim>\<open>UnmarshalTypeError\<close>. In the other
  direction \<^verbatim>\<open>json.Marshal\<close> writes for every finite \<^verbatim>\<open>float64\<close> one literal, which
  reads back as that same value, and refuses an infinity or a NaN with an
  \<^verbatim>\<open>UnsupportedValueError\<close>.
\<close>

type_synonym float64 = "64 word"

definition isFinite :: "float64 \<Rightarrow> bool" where
  "isFinite f = (f AND 0x7FF0000000000000 \<noteq> 0x7FF0000000000000)"

text \<open>
  The numbers of the examples below: the bits of 1, 2 and 5, and the positive infinity,
  which here stands for a literal such as \<^verbatim>\<open>1e400\<close>.
\<close>

definition float64_1 :: float64 where "float64_1 = 0x3FF0000000000000"
definition float64_2 :: float64 where "float64_2 = 0x4000000000000000"
definition float64_5 :: float64 where "float64_5 = 0x4014000000000000"
definition float64_Inf :: float64 where "float64_Inf = 0x7FF0000000000000"

datatype json =
    JNull
  | JBool bool
  | JNumber float64
  | JString string
  | JArray "json list"
  | JObject "(string \<times> json) list"

text \<open>
  The dynamic values an \<^verbatim>\<open>interface{}\<close> field holds: the two shapes the provider
  builds (\<^verbatim>\<open>string\<close>, \<^verbatim>\<open>[]string\<close>) and the shapes \<^verbatim>\<open>json.Unmarshal\<close>
  stores into an empty interface (\<^verbatim>\<open>nil\<close>, \<^verbatim>\<open>bool\<close>, \<^verbatim>\<open>float64\<close>,
  \<^verbatim>\<open>string\<close>, \<^verbatim>\<open>[]interface{}\<close>, \<^verbatim>\<open>map[string]interface{}\<close>). Slices held in an
  interface are non-nil. A Go map is an association list kept in ascending key order with
  no key twice (\<open>mapSet\<close> keeps it so); that is also the order in which
  \<^verbatim>\<open>json.Marshal\<close> writes the keys of a map.
\<close>

datatype any =
    ANil
  | ABool bool
  | AFloat64 float64
  | AString string
  | AStrings "string list"
  | ASlice "any list"
  | AMap "(string \<times> any) list"

text \<open>
  Every way the code stops without a result: the two explicit \<^verbatim>\<open>panic\<close> calls, the
  run-time panics of a failed type assertion, of a nil pointer and of an index out of
  range, and the errors that are returned as values (the \<^verbatim>\<open>fmt.Errorf\<close> of the
  principal decoder, the \<^verbatim>\<open>*json.UnmarshalTypeError\<close> and the
  \<^verbatim>\<open>*json.UnsupportedValueError\<close> of the library).
\<close>

datatype failure =
    PanicUnsupportedPrincipal
  | PanicUnsupportedCondition
  | PanicInterfaceConversion
  | PanicNilDereference
  | PanicIndexOutOfRange
  | ErrUnsupportedDataType
  | ErrUnmarshalType
  | ErrUnsupportedValue

fun isPanic :: "failure \<Rightarrow> bool" where
  "isPanic PanicUnsupportedPrincipal = True"
| "isPanic PanicUnsupportedCondition = True"
| "isPanic PanicInterfaceConversion = True"
| "isPanic PanicNilDereference = True"
| "isPanic PanicIndexOutOfRange = True"
| "isPanic ErrUnsupportedDataType = False"
| "isPanic ErrUnmarshalType = False"
| "isPanic ErrUnsupportedValue = False"

subsection \<open>Go maps with string keys\<close>

definition mapGet :: "(string \<times> 'v) list \<Rightarrow> string \<Rightarrow> 'v option" where
  "mapGet m k = map_of m k"

fun mapSet :: "string \<Rightarrow> 'v \<Rightarrow> (string \<times> 'v) list \<Rightarrow> (string \<times> 'v) list" where
  "mapSet k v [] = [(k, v)]"
| "mapSet k v ((k', v') # m) =
     (if k = k' then (k, v) # m
      else if k < k' then (k, v) # (k', v') # m
      else (k', v') # mapSet k v m)"

text \<open>\<^verbatim>\<open>sort.Sort(sort.Reverse(sort.StringSlice(i)))\<close>: descending byte-wise order.\<close>

definition sortDesc :: "string list \<Rightarrow> string list" where
  "sortDesc xs = rev (sort xs)"

subsection \<open>\<^verbatim>\<open>json.Marshal\<close> and \<^verbatim>\<open>json.Unmarshal\<close> on an empty interface\<close>

text \<open>
  \<open>marshalAny\<close> is the text written for a value, \<open>unsupportedValue\<close> tells whether
  \<^verbatim>\<open>json.Marshal\<close> returns an \<^verbatim>\<open>UnsupportedValueError\<close> instead of writing it: when
  the value holds a \<^verbatim>\<open>float64\<close> that is not finite.
\<close>

fun marshalAny :: "any \<Rightarrow> json" where
  "marshalAny ANil = JNull"
| "marshalAny (ABool b) = JBool b"
| "marshalAny (AFloat64 n) = JNumber n"
| "marshalAny (AString s) = JString s"
| "marshalAny (AStrings l) = JArray (map JString l)"
| "marshalAny (ASlice l) = JArray (map marshalAny l)"
| "marshalAny (AMap m) = JObject (map (\<lambda>(k, v). (k, marshalAny v)) m)"

fun unsupportedValue :: "any \<Rightarrow> bool" where
  "unsupportedValue (AFloat64 f) = (\<not> isFinite f)"
| "unsupportedValue (ASlice l) = list_ex unsupportedValue l"
| "unsupportedValue (AMap m) = list_ex (\<lambda>kv. unsupportedValue (snd kv)) m"
| "unsupportedValue _ = False"

text \<open>A JSON object read into a Go map: a later member replaces an earlier one of the same name.\<close>

fun mapOfMembers :: "(string \<times> 'v) list \<Rightarrow> (string \<times> 'v) list \<Rightarrow> (string \<times> 'v) list" where
  "mapOfMembers m [] = m"
| "mapOfMembers m ((k, v) # kvs) = mapOfMembers (mapSet k v m) kvs"

text \<open>
  \<open>unmarshalAny\<close> is the value \<^verbatim>\<open>json.Unmarshal\<close> builds for a text, \<open>outOfRange\<close>
  tells whether it returns an \<^verbatim>\<open>UnmarshalTypeError\<close> with it: when some number of the
  text is out of range. The library records that error, puts \<^verbatim>\<open>nil\<close> in the number's
  place and goes on.
\<close>

fun unmarshalAny :: "json \<Rightarrow> any" where
  "unmarshalAny JNull = ANil"
| "unmarshalAny (JBool b) = ABool b"
| "unmarshalAny (JNumber f) = (if isFinite f then AFloat64 f else ANil)"
| "unmarshalAny (JString s) = AString s"
| "unmarshalAny (JArray js) = ASlice (map unmarshalAny js)"
| "unmarshalAny (JObject kvs) = AMap (mapOfMembers [] (map (\<lambda>(k, v). (k, unmarshalAny v)) kvs))"

fun outOfRange :: "json \<Rightarrow> bool" where
  "outOfRange (JNumber f) = (\<not> isFinite f)"
| "outOfRange (JArray js) = list_ex outOfRange js"
| "outOfRange (JObject kvs) = list_ex (\<lambda>kv. outOfRange (snd kv)) kvs"
| "outOfRange _ = False"

section \<open>The data model\<close>

record IAMPolicyStatementPrincipal =
  Type :: string
  Identifiers :: any

record IAMPolicyStatementCondition =
  Test :: string
  Variable :: string
  Values :: any

section \<open>\<^verbatim>\<open>IAMPolicyStatementPrincipalSet.MarshalJSON\<close>\<close>

text \<open>
  The loop of lines 77 to 90 over the entries still to visit, with the map \<open>raw\<close> built
  so far. \<^verbatim>\<open>sort.Sort\<close> sorts the caller's own slice, so the function returns, beside
  its result, the entries as the caller finds them afterwards (the slices of different
  entries are taken not to overlap). A list is sorted before it is appended, hence also
  when the append then panics. The map \<open>raw\<close> holds strings and lists of strings only,
  which \<^verbatim>\<open>json.Marshal\<close> on line 92 always writes.
\<close>

fun principalLoop ::
  "(string \<times> any) list \<Rightarrow> IAMPolicyStatementPrincipal list \<Rightarrow>
   (failure + (string \<times> any) list) \<times> IAMPolicyStatementPrincipal list" where
  "principalLoop raw [] = (Inr raw, [])"
| "principalLoop raw (p # ps) =
     (case Identifiers p of
        AStrings i \<Rightarrow>
          (let raw1 = (if mapGet raw (Type p) = None then mapSet (Type p) (AStrings []) raw else raw);
               p' = p\<lparr>Identifiers := AStrings (sortDesc i)\<rparr>
           in case mapGet raw1 (Type p) of
                Some (AStrings old) \<Rightarrow>
                  (let (r, ps') = principalLoop (mapSet (Type p) (AStrings (old @ sortDesc i)) raw1) ps
                   in (r, p' # ps'))
              | _ \<Rightarrow> (Inl PanicInterfaceConversion, p' # ps))
      | AString i \<Rightarrow>
          (let (r, ps') = principalLoop (mapSet (Type p) (AString i) raw) ps
           in (r, p # ps'))
      | _ \<Rightarrow> (Inl PanicUnsupportedPrincipal, p # ps))"

definition isWildcardPrincipal :: "IAMPolicyStatementPrincipal \<Rightarrow> bool" where
  "isWildcardPrincipal p =
     ((Type p = ''AWS'' \<or> Type p = ''*'') \<and>
      (Identifiers p = AString ''*'' \<or> Identifiers p = AStrings [''*'']))"

definition IAMPolicyStatementPrincipalSet_MarshalJSON ::
  "IAMPolicyStatementPrincipal list \<Rightarrow> (failure + json) \<times> IAMPolicyStatementPrincipal list" where
  "IAMPolicyStatementPrincipalSet_MarshalJSON ps =
     (if length ps = 1 \<and> isWildcardPrincipal (hd ps) then (Inr (JString ''*''), ps)
      else (case principalLoop [] ps of
              (Inl e, ps') \<Rightarrow> (Inl e, ps')
            | (Inr raw, ps') \<Rightarrow> (Inr (marshalAny (AMap raw)), ps')))"

section \<open>\<^verbatim>\<open>IAMPolicyStatementConditionSet.MarshalJSON\<close>\<close>

text \<open>
  The same loop over a two-level map. \<open>inner\<close> is \<^verbatim>\<open>raw[c.Test]\<close>, created empty when
  the test is new (line 122) before the switch on the value.
\<close>

fun conditionLoop ::
  "(string \<times> (string \<times> any) list) list \<Rightarrow> IAMPolicyStatementCondition list \<Rightarrow>
   (failure + (string \<times> (string \<times> any) list) list) \<times> IAMPolicyStatementCondition list" where
  "conditionLoop raw [] = (Inr raw, [])"
| "conditionLoop raw (c # cs) =
     (let inner = (case mapGet raw (Test c) of None \<Rightarrow> [] | Some m \<Rightarrow> m)
      in case Values c of
        AStrings i \<Rightarrow>
          (let inner1 = (if mapGet inner (Variable c) = None
                         then mapSet (Variable c) (AStrings []) inner else inner);
               c' = c\<lparr>Values := AStrings (sortDesc i)\<rparr>
           in case mapGet inner1 (Variable c) of
                Some (AStrings old) \<Rightarrow>
                  (let (r, cs') = conditionLoop
                        (mapSet (Test c) (mapSet (Variable c) (AStrings (old @ sortDesc i)) inner1) raw) cs
                   in (r, c' # cs'))
              | _ \<Rightarrow> (Inl PanicInterfaceConversion, c' # cs))
      | AString i \<Rightarrow>
          (let (r, cs') = conditionLoop (mapSet (Test c) (mapSet (Variable c) (AString i) inner) raw) cs
           in (r, c # cs'))
      | _ \<Rightarrow> (Inl PanicUnsupportedCondition, c # cs))"

definition IAMPolicyStatementConditionSet_MarshalJSON ::
  "IAMPolicyStatementCondition list \<Rightarrow> (failure + json) \<times> IAMPolicyStatementCondition list" where
  "IAMPolicyStatementConditionSet_MarshalJSON cs =
     (case conditionLoop [] cs of
        (Inl e, cs') \<Rightarrow> (Inl e, cs')
      | (Inr raw, cs') \<Rightarrow> (Inr (JObject (map (\<lambda>(t, inner). (t, marshalAny (AMap inner))) raw)), cs'))"

section \<open>\<^verbatim>\<open>IAMPolicyStatementPrincipalSet.UnmarshalJSON\<close>\<close>

text \<open>
  Go leaves the order in which \<^verbatim>\<open>range\<close> visits the keys of a map unspecified. The
  decoders take that order as a parameter \<open>rng\<close>, a function that arranges the keys of
  the map; the theorems about them hold for every \<open>rng\<close> that returns its argument
  rearranged (\<open>isRangeOrder\<close>).
\<close>

definition isRangeOrder :: "(string list \<Rightarrow> string list) \<Rightarrow> bool" where
  "isRangeOrder rng = (\<forall>ks. mset (rng ks) = mset ks)"

definition rangeMap :: "(string list \<Rightarrow> string list) \<Rightarrow> (string \<times> 'v) list \<Rightarrow> (string \<times> 'v) list" where
  "rangeMap rng m = concat (map (\<lambda>k. case mapGet m k of None \<Rightarrow> [] | Some v \<Rightarrow> [(k, v)]) (rng (map fst m)))"

definition IAMPolicyStatementPrincipalSet_UnmarshalJSON ::
  "(string list \<Rightarrow> string list) \<Rightarrow> json \<Rightarrow> failure + IAMPolicyStatementPrincipal list" where
  "IAMPolicyStatementPrincipalSet_UnmarshalJSON rng b =
     (if outOfRange b then Inl ErrUnmarshalType
      else (case unmarshalAny b of
        AString t \<Rightarrow> Inr [\<lparr>Type = ''*'', Identifiers = AStrings [''*'']\<rparr>]
      | AMap data \<Rightarrow> Inr (map (\<lambda>(key, value). \<lparr>Type = key, Identifiers = value\<rparr>) (rangeMap rng data))
      | _ \<Rightarrow> Inl ErrUnsupportedDataType))"

section \<open>\<^verbatim>\<open>IAMPolicyStatementConditionSet.UnmarshalJSON\<close>\<close>

text \<open>
  \<^verbatim>\<open>json.Unmarshal\<close> into a \<^verbatim>\<open>map[string]map[string]interface{}\<close> (line 146): the text
  must be an object (or \<^verbatim>\<open>null\<close>) whose members are objects (or \<^verbatim>\<open>null\<close>, a nil
  inner map, which ranges like an empty one); anything else is an
  \<^verbatim>\<open>UnmarshalTypeError\<close>, and so is a number out of range anywhere in a leaf. The
  library goes on after such an error and returns it at the end; line 147 returns it.
\<close>

fun unmarshalInnerMap :: "json \<Rightarrow> failure + (string \<times> any) list" where
  "unmarshalInnerMap JNull = Inr []"
| "unmarshalInnerMap (JObject kvs) =
     (if list_ex (\<lambda>kv. outOfRange (snd kv)) kvs then Inl ErrUnmarshalType
      else Inr (mapOfMembers [] (map (\<lambda>(k, v). (k, unmarshalAny v)) kvs)))"
| "unmarshalInnerMap _ = Inl ErrUnmarshalType"

fun unmarshalTests ::
  "(string \<times> (string \<times> any) list) list \<Rightarrow> (string \<times> json) list \<Rightarrow>
   failure + (string \<times> (string \<times> any) list) list" where
  "unmarshalTests data [] = Inr data"
| "unmarshalTests data ((k, v) # kvs) =
     (case unmarshalInnerMap v of
        Inl e \<Rightarrow> Inl e
      | Inr inner \<Rightarrow> unmarshalTests (mapSet k inner data) kvs)"

fun unmarshalTwoLevel :: "json \<Rightarrow> failure + (string \<times> (string \<times> any) list) list" where
  "unmarshalTwoLevel JNull = Inr []"
| "unmarshalTwoLevel (JObject kvs) = unmarshalTests [] kvs"
| "unmarshalTwoLevel _ = Inl ErrUnmarshalType"

text \<open>The unchecked assertion \<^verbatim>\<open>v.(string)\<close> on every element (lines 157 to 159).\<close>

fun assertStrings :: "any list \<Rightarrow> failure + string list" where
  "assertStrings [] = Inr []"
| "assertStrings (AString s # vs) =
     (case assertStrings vs of Inl e \<Rightarrow> Inl e | Inr values \<Rightarrow> Inr (s # values))"
| "assertStrings (v # vs) = Inl PanicInterfaceConversion"

text \<open>The body of the inner loop for one variable: what it appends to \<open>out\<close>.\<close>

fun conditionOfLeaf :: "string \<Rightarrow> string \<Rightarrow> any \<Rightarrow> failure + IAMPolicyStatementCondition list" where
  "conditionOfLeaf test_key var_key (AString s) =
     Inr [\<lparr>Test = test_key, Variable = var_key, Values = AStrings [s]\<rparr>]"
| "conditionOfLeaf test_key var_key (ASlice vs) =
     (case assertStrings vs of
        Inl e \<Rightarrow> Inl e
      | Inr values \<Rightarrow> Inr [\<lparr>Test = test_key, Variable = var_key, Values = AStrings values\<rparr>])"
| "conditionOfLeaf test_key var_key _ = Inr []"

fun variablesLoop ::
  "string \<Rightarrow> (string \<times> any) list \<Rightarrow> IAMPolicyStatementCondition list \<Rightarrow>
   failure + IAMPolicyStatementCondition list" where
  "variablesLoop test_key [] out = Inr out"
| "variablesLoop test_key ((var_key, var_values) # rest) out =
     (case conditionOfLeaf test_key var_key var_values of
        Inl e \<Rightarrow> Inl e
      | Inr cs \<Rightarrow> variablesLoop test_key rest (out @ cs))"

fun testsLoop ::
  "(string list \<Rightarrow> string list) \<Rightarrow> (string \<times> (string \<times> any) list) list \<Rightarrow>
   IAMPolicyStatementCondition list \<Rightarrow> failure + IAMPolicyStatementCondition list" where
  "testsLoop rng [] out = Inr out"
| "testsLoop rng ((test_key, test_value) # rest) out =
     (case variablesLoop test_key (rangeMap rng test_value) out of
        Inl e \<Rightarrow> Inl e
      | Inr out' \<Rightarrow> testsLoop rng rest out')"

definition IAMPolicyStatementConditionSet_UnmarshalJSON ::
  "(string list \<Rightarrow> string list) \<Rightarrow> json \<Rightarrow> failure + IAMPolicyStatementCondition list" where
  "IAMPolicyStatementConditionSet_UnmarshalJSON rng b =
     (case unmarshalTwoLevel b of
        Inl err \<Rightarrow> Inl err
      | Inr data \<Rightarrow> testsLoop rng (rangeMap rng data) [])"

section \<open>\<^verbatim>\<open>iamPolicyDecodeConfigStringList\<close>\<close>

text \<open>
  The function only reads \<open>lI\<close>: it copies the strings into the new slice \<open>ret\<close> and
  sorts that. The second component is \<open>lI\<close> as the caller finds it afterwards.
\<close>

definition iamPolicyDecodeConfigStringList :: "any list \<Rightarrow> (failure + any) \<times> any list" where
  "iamPolicyDecodeConfigStringList lI =
     (if length lI = 1 then
        (case hd lI of AString s \<Rightarrow> (Inr (AString s), lI) | _ \<Rightarrow> (Inl PanicInterfaceConversion, lI))
      else (case assertStrings lI of
              Inl e \<Rightarrow> (Inl e, lI)
            | Inr ret \<Rightarrow> (Inr (AStrings (sortDesc ret)), lI)))"

section \<open>Statements and documents\<close>

record IAMPolicyStatement =
  Sid :: string
  Effect :: string
  Actions :: any
  NotActions :: any
  Resources :: any
  NotResources :: any
  Principals :: "IAMPolicyStatementPrincipal list"
  NotPrincipals :: "IAMPolicyStatementPrincipal list"
  Conditions :: "IAMPolicyStatementCondition list"

text \<open>
  \<open>Statements\<close> is a slice of pointers: \<open>None\<close> at the outer level is the nil slice
  (written \<^verbatim>\<open>null\<close>), \<open>None\<close> as an element is a nil pointer. The field \<^verbatim>\<open>Id\<close> is
  named \<open>Id_doc\<close> here.
\<close>

record IAMPolicyDoc =
  Version :: string
  Id_doc :: string
  Statements :: "IAMPolicyStatement option list option"

section \<open>\<^verbatim>\<open>IAMPolicyDoc.DeDupSids\<close>\<close>

text \<open>
  The loop of lines 45 to 54: \<open>n\<close> is the length \<^verbatim>\<open>range\<close> fixed at entry, \<open>l\<close> the
  index computed on line 44, \<open>i\<close> the loop variable; the state is the current slice and
  the map \<open>sidsSeen\<close>. Reading \<^verbatim>\<open>self.Statements[l-i]\<close> checks the index, and reading
  \<^verbatim>\<open>.Sid\<close> through a nil pointer panics.
\<close>

function DeDupSids_loop ::
  "int \<Rightarrow> nat \<Rightarrow> nat \<Rightarrow> IAMPolicyStatement option list \<times> (string \<Rightarrow> bool) \<Rightarrow>
   failure + IAMPolicyStatement option list \<times> (string \<Rightarrow> bool)" where
  "DeDupSids_loop l n i (stmts, sidsSeen) =
     (if i < n then
        (let j = l - int i in
         if j < 0 \<or> int (length stmts) \<le> j then Inl PanicIndexOutOfRange
         else (case stmts ! nat j of
                 None \<Rightarrow> Inl PanicNilDereference
               | Some s \<Rightarrow>
                   if length (Sid s) > 0 then
                     DeDupSids_loop l n (i + 1)
                       (if sidsSeen (Sid s) then take (nat j) stmts @ drop (nat j + 1) stmts else stmts,
                        sidsSeen(Sid s := True))
                   else DeDupSids_loop l n (i + 1) (stmts, sidsSeen)))
      else Inr (stmts, sidsSeen))"
  by pat_completeness auto
termination
  by (relation "measure (\<lambda>(l, n, i, st). n - i)") auto

declare DeDupSids_loop.simps [simp del]

definition DeDupSids :: "IAMPolicyDoc \<Rightarrow> failure + IAMPolicyDoc" where
  "DeDupSids self =
     (case Statements self of
        None \<Rightarrow> Inr self
      | Some stmts \<Rightarrow>
          (case DeDupSids_loop (int (length stmts) - 1) (length stmts) 0 (stmts, \<lambda>sid. False) of
             Inl e \<Rightarrow> Inl e
           | Inr (stmts', sidsSeen) \<Rightarrow> Inr (self\<lparr>Statements := Some stmts'\<rparr>)))"

section \<open>Encode: \<^verbatim>\<open>json.Marshal\<close> of a document\<close>

text \<open>
  The struct tags decide the member names and which members \<^verbatim>\<open>omitempty\<close> drops: a
  string when empty, an interface when nil, a slice when its length is 0. \<open>Sid\<close> and
  \<open>Statement\<close> carry no \<^verbatim>\<open>omitempty\<close>. Members are written in field order, so an
  interface field the library cannot write (\<open>unsupportedValue\<close>) ends the encoding with
  an error before any \<open>MarshalJSON\<close> method of the statement runs; a panic of such a
  method ends the encoding too.
\<close>

definition omitemptyString :: "string \<Rightarrow> string \<Rightarrow> (string \<times> json) list" where
  "omitemptyString name s = (if s = [] then [] else [(name, JString s)])"

definition omitemptyAny :: "string \<Rightarrow> any \<Rightarrow> (string \<times> json) list" where
  "omitemptyAny name v = (if v = ANil then [] else [(name, marshalAny v)])"

definition omitemptyPrincipals ::
  "string \<Rightarrow> IAMPolicyStatementPrincipal list \<Rightarrow> failure + (string \<times> json) list" where
  "omitemptyPrincipals name ps =
     (if length ps = 0 then Inr []
      else (case fst (IAMPolicyStatementPrincipalSet_MarshalJSON ps) of
              Inl e \<Rightarrow> Inl e
            | Inr j \<Rightarrow> Inr [(name, j)]))"

definition omitemptyConditions ::
  "string \<Rightarrow> IAMPolicyStatementCondition list \<Rightarrow> failure + (string \<times> json) list" where
  "omitemptyConditions name cs =
     (if length cs = 0 then Inr []
      else (case fst (IAMPolicyStatementConditionSet_MarshalJSON cs) of
              Inl e \<Rightarrow> Inl e
            | Inr j \<Rightarrow> Inr [(name, j)]))"

definition encodeStatement :: "IAMPolicyStatement \<Rightarrow> failure + json" where
  "encodeStatement s =
     (if unsupportedValue (Actions s) \<or> unsupportedValue (NotActions s)
         \<or> unsupportedValue (Resources s) \<or> unsupportedValue (NotResources s)
      then Inl ErrUnsupportedValue
      else
     (case omitemptyPrincipals ''Principal'' (Principals s) of
        Inl e \<Rightarrow> Inl e
      | Inr principalMember \<Rightarrow>
     (case omitemptyPrincipals ''NotPrincipal'' (NotPrincipals s) of
        Inl e \<Rightarrow> Inl e
      | Inr notPrincipalMember \<Rightarrow>
     (case omitemptyConditions ''Condition'' (Conditions s) of
        Inl e \<Rightarrow> Inl e
      | Inr conditionMember \<Rightarrow>
          Inr (JObject
            ([(''Sid'', JString (Sid s))]
             @ omitemptyString ''Effect'' (Effect s)
             @ omitemptyAny ''Action'' (Actions s)
             @ omitemptyAny ''NotAction'' (NotActions s)
             @ omitemptyAny ''Resource'' (Resources s)
             @ omitemptyAny ''NotResource'' (NotResources s)
             @ principalMember @ notPrincipalMember @ conditionMember))))))"

fun encodeStatements :: "IAMPolicyStatement option list \<Rightarrow> failure + json list" where
  "encodeStatements [] = Inr []"
| "encodeStatements (None # ss) =
     (case encodeStatements ss of Inl e \<Rightarrow> Inl e | Inr js \<Rightarrow> Inr (JNull # js))"
| "encodeStatements (Some s # ss) =
     (case encodeStatement s of
        Inl e \<Rightarrow> Inl e
      | Inr j \<Rightarrow> (case encodeStatements ss of Inl e \<Rightarrow> Inl e | Inr js \<Rightarrow> Inr (j # js)))"

definition Encode :: "IAMPolicyDoc \<Rightarrow> failure + json" where
  "Encode d =
     (case (case Statements d of
              None \<Rightarrow> Inr JNull
            | Some ss \<Rightarrow> (case encodeStatements ss of Inl e \<Rightarrow> Inl e | Inr js \<Rightarrow> Inr (JArray js))) of
        Inl e \<Rightarrow> Inl e
      | Inr statementValue \<Rightarrow>
          Inr (JObject
            (omitemptyString ''Version'' (Version d)
             @ omitemptyString ''Id'' (Id_doc d)
             @ [(''Statement'', statementValue)])))"

section \<open>Decode: \<^verbatim>\<open>json.Unmarshal\<close> into a document\<close>

text \<open>
  A member of an object is stored into the field whose JSON name equals the member's
  name up to letter case (the library folds ASCII letters, the Kelvin sign and the long
  s); other members are skipped. A value of the wrong type for a string field or for the
  statement slice, and a number out of range, are recorded as an
  \<^verbatim>\<open>UnmarshalTypeError\<close> (the first one is kept) and decoding goes on; an error
  returned by an \<open>UnmarshalJSON\<close> method ends the decoding, and so does a panic.
  \<^verbatim>\<open>null\<close> leaves a string untouched, clears an interface, a pointer or a slice, and
  is handed to an \<open>UnmarshalJSON\<close> method like any other value.

  A member that comes again is decoded over what the earlier one left. For a string, an
  interface or a set with an \<open>UnmarshalJSON\<close> method the new value replaces the old one.
  For the statement slice the library sets the length to zero and decodes the element at
  position \<open>i\<close> over the pointer the slice's array holds at \<open>i\<close>: into the statement it
  points to, whose other fields stay, or into a new statement when the pointer is nil or
  the array ends. So the state of the decoder holds, beside the document, the pointers
  left in the array behind the slice's length (\<open>spare\<close>); an empty array and
  \<^verbatim>\<open>null\<close> give the slice a new, empty array.
\<close>

definition asciiUpper :: "char \<Rightarrow> char" where
  "asciiUpper c = (if CHR ''a'' \<le> c \<and> c \<le> CHR ''z'' then char_of (of_char c - (32::nat)) else c)"

fun foldName :: "string \<Rightarrow> string" where
  "foldName (a # b # c # cs) =
     (if a = CHR 0xE2 \<and> b = CHR 0x84 \<and> c = CHR 0xAA then CHR ''K'' # foldName cs
      else if a = CHR 0xC5 \<and> b = CHR 0xBF then CHR ''S'' # foldName (c # cs)
      else asciiUpper a # foldName (b # c # cs))"
| "foldName [a, b] =
     (if a = CHR 0xC5 \<and> b = CHR 0xBF then [CHR ''S''] else [asciiUpper a, asciiUpper b])"
| "foldName [a] = [asciiUpper a]"
| "foldName [] = []"

definition saveError :: "failure option \<Rightarrow> failure \<Rightarrow> failure option" where
  "saveError saved e = (case saved of None \<Rightarrow> Some e | Some first \<Rightarrow> Some first)"

fun decodeString :: "json \<Rightarrow> string \<times> failure option \<Rightarrow> string \<times> failure option" where
  "decodeString (JString s) (old, saved) = (s, saved)"
| "decodeString JNull (old, saved) = (old, saved)"
| "decodeString _ (old, saved) = (old, saveError saved ErrUnmarshalType)"

text \<open>
  An \<^verbatim>\<open>interface{}\<close> field: a number out of range at the top leaves the field as it
  was, one further inside leaves \<^verbatim>\<open>nil\<close> in its place; both record the error.
\<close>

fun decodeInterface :: "json \<Rightarrow> any \<times> failure option \<Rightarrow> any \<times> failure option" where
  "decodeInterface (JNumber f) (old, saved) =
     (if isFinite f then (AFloat64 f, saved) else (old, saveError saved ErrUnmarshalType))"
| "decodeInterface v (old, saved) =
     (unmarshalAny v, if outOfRange v then saveError saved ErrUnmarshalType else saved)"

definition zeroStatement :: IAMPolicyStatement where
  "zeroStatement =
     \<lparr>Sid = [], Effect = [], Actions = ANil, NotActions = ANil, Resources = ANil,
      NotResources = ANil, Principals = [], NotPrincipals = [], Conditions = []\<rparr>"

definition decodeStatementMember ::
  "(string list \<Rightarrow> string list) \<Rightarrow> string \<times> json \<Rightarrow> IAMPolicyStatement \<times> failure option \<Rightarrow>
   failure + IAMPolicyStatement \<times> failure option" where
  "decodeStatementMember rng kv st =
     (let name = foldName (fst kv); v = snd kv; s = fst st; saved = snd st in
      if name = foldName ''Sid'' then
        (case decodeString v (Sid s, saved) of (x, saved') \<Rightarrow> Inr (s\<lparr>Sid := x\<rparr>, saved'))
      else if name = foldName ''Effect'' then
        (case decodeString v (Effect s, saved) of (x, saved') \<Rightarrow> Inr (s\<lparr>Effect := x\<rparr>, saved'))
      else if name = foldName ''Action'' then
        (case decodeInterface v (Actions s, saved) of (x, saved') \<Rightarrow> Inr (s\<lparr>Actions := x\<rparr>, saved'))
      else if name = foldName ''NotAction'' then
        (case decodeInterface v (NotActions s, saved) of (x, saved') \<Rightarrow> Inr (s\<lparr>NotActions := x\<rparr>, saved'))
      else if name = foldName ''Resource'' then
        (case decodeInterface v (Resources s, saved) of (x, saved') \<Rightarrow> Inr (s\<lparr>Resources := x\<rparr>, saved'))
      else if name = foldName ''NotResource'' then
        (case decodeInterface v (NotResources s, saved) of (x, saved') \<Rightarrow> Inr (s\<lparr>NotResources := x\<rparr>, saved'))
      else if name = foldName ''Principal'' then
        (case IAMPolicyStatementPrincipalSet_UnmarshalJSON rng v of
           Inl e \<Rightarrow> Inl e
         | Inr ps \<Rightarrow> Inr (s\<lparr>Principals := ps\<rparr>, saved))
      else if name = foldName ''NotPrincipal'' then
        (case IAMPolicyStatementPrincipalSet_UnmarshalJSON rng v of
           Inl e \<Rightarrow> Inl e
         | Inr ps \<Rightarrow> Inr (s\<lparr>NotPrincipals := ps\<rparr>, saved))
      else if name = foldName ''Condition'' then
        (case IAMPolicyStatementConditionSet_UnmarshalJSON rng v of
           Inl e \<Rightarrow> Inl e
         | Inr cs \<Rightarrow> Inr (s\<lparr>Conditions := cs\<rparr>, saved))
      else Inr (s, saved))"

fun decodeStatementMembers ::
  "(string list \<Rightarrow> string list) \<Rightarrow> (string \<times> json) list \<Rightarrow> IAMPolicyStatement \<times> failure option \<Rightarrow>
   failure + IAMPolicyStatement \<times> failure option" where
  "decodeStatementMembers rng [] st = Inr st"
| "decodeStatementMembers rng (kv # kvs) st =
     (case decodeStatementMember rng kv st of
        Inl e \<Rightarrow> Inl e
      | Inr st' \<Rightarrow> decodeStatementMembers rng kvs st')"

text \<open>
  One element of the statement array, decoded over the pointer \<open>old\<close> found at its
  position: \<^verbatim>\<open>null\<close> makes the pointer nil; any other value first makes a nil pointer
  point to a new statement.
\<close>

definition pointee :: "IAMPolicyStatement option \<Rightarrow> IAMPolicyStatement" where
  "pointee old = (case old of None \<Rightarrow> zeroStatement | Some s \<Rightarrow> s)"

fun decodeStatementPointer ::
  "(string list \<Rightarrow> string list) \<Rightarrow> json \<Rightarrow> IAMPolicyStatement option \<times> failure option \<Rightarrow>
   failure + IAMPolicyStatement option \<times> failure option" where
  "decodeStatementPointer rng JNull (old, saved) = Inr (None, saved)"
| "decodeStatementPointer rng (JObject kvs) (old, saved) =
     (case decodeStatementMembers rng kvs (pointee old, saved) of
        Inl e \<Rightarrow> Inl e
      | Inr (s, saved') \<Rightarrow> Inr (Some s, saved'))"
| "decodeStatementPointer rng _ (old, saved) = Inr (Some (pointee old), saveError saved ErrUnmarshalType)"

text \<open>
  The elements of the array one after the other over the pointers \<open>olds\<close> of the slice's
  array; returns the decoded elements and the pointers of \<open>olds\<close> not reached.
\<close>

fun decodeStatementArray ::
  "(string list \<Rightarrow> string list) \<Rightarrow> json list \<Rightarrow> IAMPolicyStatement option list \<Rightarrow> failure option \<Rightarrow>
   failure + (IAMPolicyStatement option list \<times> IAMPolicyStatement option list) \<times> failure option" where
  "decodeStatementArray rng [] olds saved = Inr (([], olds), saved)"
| "decodeStatementArray rng (j # js) olds saved =
     (case decodeStatementPointer rng j (case olds of [] \<Rightarrow> None | old # rest \<Rightarrow> old, saved) of
        Inl e \<Rightarrow> Inl e
      | Inr (p, saved') \<Rightarrow>
          (case decodeStatementArray rng js (tl olds) saved' of
             Inl e \<Rightarrow> Inl e
           | Inr ((ps, rest), saved'') \<Rightarrow> Inr ((p # ps, rest), saved'')))"

definition zeroDoc :: IAMPolicyDoc where
  "zeroDoc = \<lparr>Version = [], Id_doc = [], Statements = None\<rparr>"

definition decodeDocMember ::
  "(string list \<Rightarrow> string list) \<Rightarrow> string \<times> json \<Rightarrow>
   IAMPolicyDoc \<times> IAMPolicyStatement option list \<times> failure option \<Rightarrow>
   failure + IAMPolicyDoc \<times> IAMPolicyStatement option list \<times> failure option" where
  "decodeDocMember rng kv st =
     (let name = foldName (fst kv); v = snd kv; d = fst st; spare = fst (snd st); saved = snd (snd st) in
      if name = foldName ''Version'' then
        (case decodeString v (Version d, saved) of (x, saved') \<Rightarrow> Inr (d\<lparr>Version := x\<rparr>, spare, saved'))
      else if name = foldName ''Id'' then
        (case decodeString v (Id_doc d, saved) of (x, saved') \<Rightarrow> Inr (d\<lparr>Id_doc := x\<rparr>, spare, saved'))
      else if name = foldName ''Statement'' then
        (case v of
           JNull \<Rightarrow> Inr (d\<lparr>Statements := None\<rparr>, [], saved)
         | JArray js \<Rightarrow>
             (if js = [] then Inr (d\<lparr>Statements := Some []\<rparr>, [], saved)
              else (case decodeStatementArray rng js
                           ((case Statements d of None \<Rightarrow> [] | Some ps \<Rightarrow> ps) @ spare) saved of
                      Inl e \<Rightarrow> Inl e
                    | Inr ((ps, rest), saved') \<Rightarrow> Inr (d\<lparr>Statements := Some ps\<rparr>, rest, saved')))
         | _ \<Rightarrow> Inr (d, spare, saveError saved ErrUnmarshalType))
      else Inr (d, spare, saved))"

fun decodeDocMembers ::
  "(string list \<Rightarrow> string list) \<Rightarrow> (string \<times> json) list \<Rightarrow>
   IAMPolicyDoc \<times> IAMPolicyStatement option list \<times> failure option \<Rightarrow>
   failure + IAMPolicyDoc \<times> IAMPolicyStatement option list \<times> failure option" where
  "decodeDocMembers rng [] st = Inr st"
| "decodeDocMembers rng (kv # kvs) st =
     (case decodeDocMember rng kv st of
        Inl e \<Rightarrow> Inl e
      | Inr st' \<Rightarrow> decodeDocMembers rng kvs st')"

definition Decode :: "(string list \<Rightarrow> string list) \<Rightarrow> json \<Rightarrow> failure + IAMPolicyDoc" where
  "Decode rng b =
     (case (case b of
              JNull \<Rightarrow> Inr (zeroDoc, [], None)
            | JObject kvs \<Rightarrow> decodeDocMembers rng kvs (zeroDoc, [], None)
            | _ \<Rightarrow> Inr (zeroDoc, [], Some ErrUnmarshalType)) of
        Inl e \<Rightarrow> Inl e
      | Inr (d, spare, None) \<Rightarrow> Inr d
      | Inr (d, spare, Some err) \<Rightarrow> Inl err)"

section \<open>Notions used to state the properties\<close>

fun holdsStrings :: "any \<Rightarrow> bool" where
  "holdsStrings (AStrings l) = True"
| "holdsStrings _ = False"

fun holdsString :: "any \<Rightarrow> bool" where
  "holdsString (AString s) = True"
| "holdsString _ = False"

text \<open>
  What the loop of \<open>MarshalJSON\<close> gathers for the type \<open>T\<close> from a set of list-valued
  entries: the lists of the entries of that type, each in descending order, one after
  the other in the order of the entries.
\<close>

fun mergedIdentifiers :: "string \<Rightarrow> IAMPolicyStatementPrincipal list \<Rightarrow> string list" where
  "mergedIdentifiers T [] = []"
| "mergedIdentifiers T (p # ps) =
     (case Identifiers p of
        AStrings i \<Rightarrow> (if Type p = T then sortDesc i else [])
      | _ \<Rightarrow> []) @ mergedIdentifiers T ps"

definition stringsAt :: "(string \<times> any) list \<Rightarrow> string \<Rightarrow> string list" where
  "stringsAt raw T = (case mapGet raw T of Some (AStrings l) \<Rightarrow> l | _ \<Rightarrow> [])"

text \<open>An entry as \<^verbatim>\<open>sort.Sort\<close> leaves it: a list in descending order, anything else as it was.\<close>

definition sortedPrincipal :: "IAMPolicyStatementPrincipal \<Rightarrow> IAMPolicyStatementPrincipal" where
  "sortedPrincipal p =
     (case Identifiers p of AStrings l \<Rightarrow> p\<lparr>Identifiers := AStrings (sortDesc l)\<rparr> | _ \<Rightarrow> p)"

definition sortedCondition :: "IAMPolicyStatementCondition \<Rightarrow> IAMPolicyStatementCondition" where
  "sortedCondition c =
     (case Values c of AStrings l \<Rightarrow> c\<lparr>Values := AStrings (sortDesc l)\<rparr> | _ \<Rightarrow> c)"

text \<open>
  The statements that survive de-duplication, in the words of the specification: a
  statement is dropped exactly when its \<open>sid\<close> is not empty and occurs again later in
  the sequence; the others stay, in their order.
\<close>

fun lastOccurrences :: "IAMPolicyStatement list \<Rightarrow> IAMPolicyStatement list" where
  "lastOccurrences [] = []"
| "lastOccurrences (s # ss) =
     (if Sid s \<noteq> [] \<and> Sid s \<in> set (map Sid ss) then lastOccurrences ss
      else s # lastOccurrences ss)"

fun holdsSlice :: "any \<Rightarrow> bool" where
  "holdsSlice (ASlice vs) = True"
| "holdsSlice _ = False"

text \<open>Every array among the leaves of a decoded two-level map holds strings only.\<close>

fun arrayOfStrings :: "any \<Rightarrow> bool" where
  "arrayOfStrings (ASlice vs) = list_all holdsString vs"
| "arrayOfStrings _ = True"

definition arraysHoldStrings :: "(string \<times> (string \<times> any) list) list \<Rightarrow> bool" where
  "arraysHoldStrings data = list_all (\<lambda>tv. list_all (\<lambda>kv. arrayOfStrings (snd kv)) (snd tv)) data"

text \<open>
  The documents whose canonical form is read back and written again unchanged. A map
  held in an interface field is a Go map, with its keys in the model's order; a principal
  set is empty, the wildcard entry, or holds bare strings with no type twice; a condition
  set holds lists with no pair of test and variable twice.
\<close>

fun wfAny :: "any \<Rightarrow> bool" where
  "wfAny (ASlice l) = list_all wfAny l"
| "wfAny (AMap m) = (sorted_wrt (<) (map fst m) \<and> list_all (\<lambda>kv. wfAny (snd kv)) m)"
| "wfAny _ = True"

definition stablePrincipals :: "IAMPolicyStatementPrincipal list \<Rightarrow> bool" where
  "stablePrincipals ps =
     (ps = [] \<or> (length ps = 1 \<and> isWildcardPrincipal (hd ps))
      \<or> (list_all (\<lambda>p. holdsString (Identifiers p)) ps \<and> distinct (map Type ps)))"

definition stableConditions :: "IAMPolicyStatementCondition list \<Rightarrow> bool" where
  "stableConditions cs =
     (list_all (\<lambda>c. holdsStrings (Values c)) cs \<and> distinct (map (\<lambda>c. (Test c, Variable c)) cs))"

definition stableStatement :: "IAMPolicyStatement \<Rightarrow> bool" where
  "stableStatement s =
     (wfAny (Actions s) \<and> wfAny (NotActions s) \<and> wfAny (Resources s) \<and> wfAny (NotResources s)
      \<and> stablePrincipals (Principals s) \<and> stablePrincipals (NotPrincipals s)
      \<and> stableConditions (Conditions s))"

definition stableDoc :: "IAMPolicyDoc \<Rightarrow> bool" where
  "stableDoc d =
     (case Statements d of
        None \<Rightarrow> True
      | Some ss \<Rightarrow> list_all (\<lambda>p. case p of None \<Rightarrow> True | Some s \<Rightarrow> stableStatement s) ss)"

text \<open>A JSON text in which every object has its members in ascending order of their names.\<close>

fun sortedJSON :: "json \<Rightarrow> bool" where
  "sortedJSON (JArray js) = list_all sortedJSON js"
| "sortedJSON (JObject kvs) = (sorted_wrt (<) (map fst kvs) \<and> list_all (\<lambda>kv. sortedJSON (snd kv)) kvs)"
| "sortedJSON _ = True"

text \<open>
  The two-level map of the condition encoder: the leaf stored for a test and a
  variable, the list stored there, and what the loop gathers for the pair from a set of
  list-valued entries (as \<open>mergedIdentifiers\<close> does for a type).
\<close>

definition lookup2 :: "(string \<times> (string \<times> 'v) list) list \<Rightarrow> string \<Rightarrow> string \<Rightarrow> 'v option" where
  "lookup2 raw t v = (case mapGet raw t of None \<Rightarrow> None | Some inner \<Rightarrow> mapGet inner v)"

definition stringsAt2 :: "(string \<times> (string \<times> any) list) list \<Rightarrow> string \<Rightarrow> string \<Rightarrow> string list" where
  "stringsAt2 raw t v = (case lookup2 raw t v of Some (AStrings l) \<Rightarrow> l | _ \<Rightarrow> [])"

fun mergedValues :: "string \<Rightarrow> string \<Rightarrow> IAMPolicyStatementCondition list \<Rightarrow> string list" where
  "mergedValues t v [] = []"
| "mergedValues t v (c # cs) =
     (case Values c of
        AStrings i \<Rightarrow> (if Test c = t \<and> Variable c = v then sortDesc i else [])
      | _ \<Rightarrow> []) @ mergedValues t v cs"

text \<open>Both levels in key order, no test without a variable.\<close>

definition wf2 :: "(string \<times> (string \<times> 'v) list) list \<Rightarrow> bool" where
  "wf2 raw = (sorted_wrt (<) (map fst raw)
     \<and> list_all (\<lambda>tv. sorted_wrt (<) (map fst (snd tv)) \<and> snd tv \<noteq> []) raw)"

text \<open>The entries the decoder's inner loop appends for one leaf; none when the leaf panics.\<close>

definition leafEntries :: "string \<Rightarrow> string \<times> any \<Rightarrow> IAMPolicyStatementCondition list" where
  "leafEntries t kv = (case conditionOfLeaf t (fst kv) (snd kv) of Inl e \<Rightarrow> [] | Inr cs \<Rightarrow> cs)"

text \<open>A two-level map as it is after being written and read back.\<close>

definition rereadMap :: "(string \<times> (string \<times> any) list) list \<Rightarrow> (string \<times> (string \<times> any) list) list" where
  "rereadMap raw = map (\<lambda>tv. (fst tv, map (\<lambda>kv. (fst kv, unmarshalAny (marshalAny (snd kv)))) (snd tv))) raw"

section \<open>Go maps: lookup, keys and order after an update\<close>

lemma mapGet_mapSet: "mapGet (mapSet k v m) k' = (if k' = k then Some v else mapGet m k')"
  by (induction m) (auto simp: mapGet_def)

lemma keys_mapSet: "fst ` set (mapSet k v m) = insert k (fst ` set m)"
proof (induction m)
  case Nil
  then show ?case by simp
next
  case (Cons a m)
  then show ?case by (cases a) (simp add: insert_commute)
qed

lemma sorted_mapSet:
  "sorted_wrt (<) (map fst m) \<Longrightarrow> sorted_wrt (<) (map fst (mapSet k v m))"
proof (induction m)
  case Nil
  then show ?case by simp
next
  case (Cons a m)
  obtain k' v' where a: "a = (k', v')" by (cases a)
  have "\<forall>x\<in>fst ` set (mapSet k v m). k' < x" if "\<not> k < k'" "k \<noteq> k'"
    using that Cons.prems a by (auto simp: keys_mapSet)
  with Cons a show ?case by auto
qed

lemma mapGet_None_iff: "mapGet m k = None \<longleftrightarrow> k \<notin> fst ` set m"
  by (simp add: mapGet_def map_of_eq_None_iff)

lemma list_all_mapSet: "list_all Q m \<Longrightarrow> Q (k, v) \<Longrightarrow> list_all Q (mapSet k v m)"
  by (induction m) auto

section \<open>The principal encoder\<close>

lemma principalLoop_append:
  "principalLoop raw (xs @ ys) =
     (case principalLoop raw xs of
        (Inl e, xs') \<Rightarrow> (Inl e, xs' @ ys)
      | (Inr raw', xs') \<Rightarrow> (let (r, ys') = principalLoop raw' ys in (r, xs' @ ys')))"
proof (induction xs arbitrary: raw)
  case Nil
  then show ?case by (simp split: prod.splits)
next
  case (Cons p xs)
  show ?case
    by (simp add: Cons.IH Let_def split: any.splits option.splits prod.splits sum.splits)
qed

lemma principalLoop_lists:
  assumes "list_all (\<lambda>p. holdsStrings (Identifiers p)) ps"
    and "list_all (\<lambda>kv. holdsStrings (snd kv)) raw"
  shows "\<exists>raw'. fst (principalLoop raw ps) = Inr raw'
     \<and> list_all (\<lambda>kv. holdsStrings (snd kv)) raw'
     \<and> fst ` set raw' = fst ` set raw \<union> Type ` set ps
     \<and> (\<forall>T. stringsAt raw' T = stringsAt raw T @ mergedIdentifiers T ps)
     \<and> (sorted_wrt (<) (map fst raw) \<longrightarrow> sorted_wrt (<) (map fst raw'))"
  using assms
proof (induction ps arbitrary: raw)
  case Nil
  then show ?case by simp
next
  case (Cons p ps)
  from Cons.prems(1) obtain i where i: "Identifiers p = AStrings i"
    by (cases "Identifiers p") auto
  define raw1 where "raw1 = (if mapGet raw (Type p) = None then mapSet (Type p) (AStrings []) raw else raw)"
  have raw1_lists: "list_all (\<lambda>kv. holdsStrings (snd kv)) raw1"
    using Cons.prems(2) by (simp add: raw1_def list_all_mapSet)
  have raw1_keys: "fst ` set raw1 = insert (Type p) (fst ` set raw)"
    by (auto simp: raw1_def keys_mapSet mapGet_None_iff)
  have raw1_at: "stringsAt raw1 T = stringsAt raw T" for T
    by (auto simp: raw1_def stringsAt_def mapGet_mapSet)
  have "mapGet raw1 (Type p) \<noteq> None"
    using raw1_keys by (simp add: mapGet_None_iff)
  then obtain v where v: "mapGet raw1 (Type p) = Some v" by auto
  then have "(Type p, v) \<in> set raw1" by (simp add: mapGet_def map_of_SomeD)
  with raw1_lists have "holdsStrings v" by (auto simp: list_all_iff)
  then obtain old where old: "v = AStrings old" by (cases v) auto
  have old_at: "stringsAt raw1 (Type p) = old"
    by (simp add: stringsAt_def v old)
  define raw2 where "raw2 = mapSet (Type p) (AStrings (old @ sortDesc i)) raw1"
  have raw2_lists: "list_all (\<lambda>kv. holdsStrings (snd kv)) raw2"
    using raw1_lists by (simp add: raw2_def list_all_mapSet)
  have step: "fst (principalLoop raw (p # ps)) = fst (principalLoop raw2 ps)"
    using v old i by (simp add: raw1_def [symmetric] raw2_def Let_def split_beta)
  from Cons.IH [OF _ raw2_lists] Cons.prems(1)
  obtain raw' where r: "fst (principalLoop raw2 ps) = Inr raw'"
    "list_all (\<lambda>kv. holdsStrings (snd kv)) raw'"
    "fst ` set raw' = fst ` set raw2 \<union> Type ` set ps"
    "\<forall>T. stringsAt raw' T = stringsAt raw2 T @ mergedIdentifiers T ps"
    "sorted_wrt (<) (map fst raw2) \<longrightarrow> sorted_wrt (<) (map fst raw')"
    by auto
  have at2: "stringsAt raw2 T = stringsAt raw T @ (if Type p = T then sortDesc i else [])" for T
    using old_at raw1_at [of T] raw1_at [of "Type p"]
    by (auto simp: raw2_def stringsAt_def mapGet_mapSet)
  have keys2: "fst ` set raw2 = insert (Type p) (fst ` set raw)"
    by (simp add: raw2_def keys_mapSet raw1_keys)
  have sorted2: "sorted_wrt (<) (map fst raw) \<longrightarrow> sorted_wrt (<) (map fst raw2)"
    by (simp add: raw2_def raw1_def sorted_mapSet)
  show ?case
    using r step at2 keys2 sorted2 i by auto
qed

text \<open>
  C6. Encoding a principal set yields the bare JSON string \<open>"*"\<close> exactly when the set
  has a single entry whose type is \<open>"AWS"\<close> or \<open>"*"\<close> and whose identifier value is the
  string \<open>"*"\<close> or the one-element list \<open>["*"]\<close>. Every other set is either written as
  an object or makes the encoder panic.
\<close>

theorem wildcard_exactly_when_single_star:
  "(fst (IAMPolicyStatementPrincipalSet_MarshalJSON ps) = Inr (JString ''*'')) =
     (\<exists>p. ps = [p] \<and> (Type p = ''AWS'' \<or> Type p = ''*'') \<and>
          (Identifiers p = AString ''*'' \<or> Identifiers p = AStrings [''*'']))"
proof -
  have general: "fst (case principalLoop [] ps of
              (Inl e, ps') \<Rightarrow> (Inl e, ps')
            | (Inr raw, ps') \<Rightarrow> (Inr (marshalAny (AMap raw)), ps')) \<noteq> Inr (JString ''*'')"
    by (simp split: prod.splits sum.splits)
  have shape: "(length ps = 1 \<and> isWildcardPrincipal (hd ps)) =
     (\<exists>p. ps = [p] \<and> (Type p = ''AWS'' \<or> Type p = ''*'') \<and>
          (Identifiers p = AString ''*'' \<or> Identifiers p = AStrings [''*'']))"
    by (cases ps) (auto simp: isWildcardPrincipal_def)
  show ?thesis
    unfolding shape [symmetric] IAMPolicyStatementPrincipalSet_MarshalJSON_def
    using general by (simp del: One_nat_def)
qed

theorem wildcard_exactly_when_single_star_witness:
  "fst (IAMPolicyStatementPrincipalSet_MarshalJSON [\<lparr>Type = ''AWS'', Identifiers = AString ''*''\<rparr>])
     = Inr (JString ''*'')
   \<and> fst (IAMPolicyStatementPrincipalSet_MarshalJSON [\<lparr>Type = ''*'', Identifiers = AStrings [''*'']\<rparr>])
     = Inr (JString ''*'')
   \<and> fst (IAMPolicyStatementPrincipalSet_MarshalJSON [\<lparr>Type = ''Service'', Identifiers = AString ''*''\<rparr>])
     \<noteq> Inr (JString ''*'')"
  using wildcard_exactly_when_single_star [of "[\<lparr>Type = ''AWS'', Identifiers = AString ''*''\<rparr>]"]
    wildcard_exactly_when_single_star [of "[\<lparr>Type = ''*'', Identifiers = AStrings [''*'']\<rparr>]"]
    wildcard_exactly_when_single_star [of "[\<lparr>Type = ''Service'', Identifiers = AString ''*''\<rparr>]"]
  by simp

text \<open>
  C2, as the code has it. For every principal set whose identifier values are all lists
  and that is not the single wildcard entry, encoding yields an object with exactly one
  key per type; the value of a type is the concatenation, in the order of the entries, of
  that type's lists, each sorted in descending order on its own. The merged list is not
  sorted again.
\<close>

theorem lists_merged_per_type:
  assumes "list_all (\<lambda>p. holdsStrings (Identifiers p)) ps"
    and "\<not> (length ps = 1 \<and> isWildcardPrincipal (hd ps))"
  shows "\<exists>ms. fst (IAMPolicyStatementPrincipalSet_MarshalJSON ps) = Inr (JObject ms)
     \<and> distinct (map fst ms)
     \<and> fst ` set ms = Type ` set ps
     \<and> list_all (\<lambda>p. map_of ms (Type p) = Some (JArray (map JString (mergedIdentifiers (Type p) ps)))) ps"
proof -
  from principalLoop_lists [OF assms(1), of "[]"]
  obtain raw where raw: "fst (principalLoop [] ps) = Inr raw"
    "list_all (\<lambda>kv. holdsStrings (snd kv)) raw"
    "fst ` set raw = Type ` set ps"
    "\<forall>T. stringsAt raw T = mergedIdentifiers T ps"
    "sorted_wrt (<) (map fst raw)"
    by (auto simp: stringsAt_def mapGet_def)
  define ms where "ms = map (\<lambda>(k, v). (k, marshalAny v)) raw"
  have keys: "map fst ms = map fst raw"
    by (simp add: ms_def split_beta)
  have res: "fst (IAMPolicyStatementPrincipalSet_MarshalJSON ps) = Inr (JObject ms)"
  proof -
    obtain ps' where "principalLoop [] ps = (Inr raw, ps')"
      using raw(1) by (cases "principalLoop [] ps") auto
    with assms(2) show ?thesis
      by (simp add: IAMPolicyStatementPrincipalSet_MarshalJSON_def ms_def del: One_nat_def)
  qed
  have dist: "distinct (map fst ms)"
    using raw(5) keys strict_sorted_iff by metis
  have keyset: "fst ` set ms = Type ` set ps"
    using raw(3) keys by (metis list.set_map)
  have val: "map_of ms (Type p) = Some (JArray (map JString (mergedIdentifiers (Type p) ps)))"
    if "p \<in> set ps" for p
  proof -
    from that raw(3) have "Type p \<in> fst ` set raw" by auto
    then obtain v where v: "map_of raw (Type p) = Some v"
      by (metis map_of_eq_None_iff not_Some_eq)
    then have "(Type p, v) \<in> set raw" by (rule map_of_SomeD)
    with raw(2) have "holdsStrings v" by (auto simp: list_all_iff)
    then obtain l where l: "v = AStrings l" by (cases v) auto
    have "stringsAt raw (Type p) = l" by (simp add: stringsAt_def mapGet_def v l)
    with raw(4) have "l = mergedIdentifiers (Type p) ps" by simp
    moreover have "map_of ms (Type p) = map_option marshalAny (map_of raw (Type p))"
      unfolding ms_def by (simp add: map_of_map)
    ultimately show ?thesis by (simp add: v l)
  qed
  show ?thesis
    using res dist keyset val by (auto simp: list_all_iff)
qed

theorem lists_merged_per_type_witness:
  "mergedIdentifiers ''AWS''
     [\<lparr>Type = ''AWS'', Identifiers = AStrings [''arn:a'']\<rparr>,
      \<lparr>Type = ''AWS'', Identifiers = AStrings [''arn:b'']\<rparr>] = [''arn:a'', ''arn:b'']
   \<and> (\<exists>ms. fst (IAMPolicyStatementPrincipalSet_MarshalJSON
          [\<lparr>Type = ''AWS'', Identifiers = AStrings [''arn:a'']\<rparr>,
           \<lparr>Type = ''AWS'', Identifiers = AStrings [''arn:b'']\<rparr>]) = Inr (JObject ms)
        \<and> distinct (map fst ms)
        \<and> fst ` set ms = {''AWS''}
        \<and> map_of ms ''AWS'' = Some (JArray [JString ''arn:a'', JString ''arn:b'']))"
proof -
  let ?ps = "[\<lparr>Type = ''AWS'', Identifiers = AStrings [''arn:a'']\<rparr>,
              \<lparr>Type = ''AWS'', Identifiers = AStrings [''arn:b'']\<rparr>]"
  have m: "mergedIdentifiers ''AWS'' ?ps = [''arn:a'', ''arn:b'']"
    by (simp add: sortDesc_def)
  have h1: "list_all (\<lambda>p. holdsStrings (Identifiers p)) ?ps" by simp
  have h2: "\<not> (length ?ps = 1 \<and> isWildcardPrincipal (hd ?ps))" by simp
  from lists_merged_per_type [OF h1 h2] m show ?thesis by (simp add: sortDesc_def)
qed

text \<open>
  The claim C2 as worded fails on its own example: the two entries \<open>["arn:a"]\<close> and
  \<open>["arn:b"]\<close> of type \<open>"AWS"\<close> are written as \<open>["arn:a","arn:b"]\<close>, which is not
  in descending order.
\<close>

theorem merged_list_not_descending:
  "fst (IAMPolicyStatementPrincipalSet_MarshalJSON
      [\<lparr>Type = ''AWS'', Identifiers = AStrings [''arn:a'']\<rparr>,
       \<lparr>Type = ''AWS'', Identifiers = AStrings [''arn:b'']\<rparr>])
     = Inr (JObject [(''AWS'', JArray [JString ''arn:a'', JString ''arn:b''])])
   \<and> sortDesc [''arn:a'', ''arn:b''] \<noteq> [''arn:a'', ''arn:b'']"
  by code_simp

text \<open>
  C9. A string entry for a type followed by a list entry of the same type makes the
  encoder panic on the type assertion of line 84; a string entry that follows a list or
  another string of its type replaces what was stored for the type. Both hold wherever
  the entries stand: whenever the entries before have left a string under \<open>T\<close>, a list
  for \<open>T\<close> panics, and a string for \<open>T\<close> is stored over whatever \<open>raw\<close> held.
\<close>

theorem string_then_list_panics:
  "fst (IAMPolicyStatementPrincipalSet_MarshalJSON
      [\<lparr>Type = T, Identifiers = AString s\<rparr>, \<lparr>Type = T, Identifiers = AStrings l\<rparr>])
     = Inl PanicInterfaceConversion
   \<and> fst (IAMPolicyStatementPrincipalSet_MarshalJSON
      [\<lparr>Type = T, Identifiers = AStrings l\<rparr>, \<lparr>Type = T, Identifiers = AString s\<rparr>])
     = Inr (JObject [(T, JString s)])
   \<and> fst (IAMPolicyStatementPrincipalSet_MarshalJSON
      [\<lparr>Type = T, Identifiers = AString s'\<rparr>, \<lparr>Type = T, Identifiers = AString s\<rparr>])
     = Inr (JObject [(T, JString s)])
   \<and> (principalLoop [] pre = (Inr raw, pre') \<and> mapGet raw T = Some (AString s) \<longrightarrow>
        fst (IAMPolicyStatementPrincipalSet_MarshalJSON (pre @ \<lparr>Type = T, Identifiers = AStrings l\<rparr> # post))
          = Inl PanicInterfaceConversion)
   \<and> (principalLoop [] pre = (Inr raw, pre') \<and> pre \<noteq> [] \<longrightarrow>
        fst (IAMPolicyStatementPrincipalSet_MarshalJSON (pre @ [\<lparr>Type = T, Identifiers = AString s\<rparr>]))
          = Inr (marshalAny (AMap (mapSet T (AString s) raw))))"
proof -
  have two: "\<not> (length [a, b] = 1 \<and> isWildcardPrincipal (hd [a, b]))"
    for a b :: IAMPolicyStatementPrincipal
    by simp
  have c1: "fst (IAMPolicyStatementPrincipalSet_MarshalJSON
      [\<lparr>Type = T, Identifiers = AString s\<rparr>, \<lparr>Type = T, Identifiers = AStrings l\<rparr>])
     = Inl PanicInterfaceConversion"
    unfolding IAMPolicyStatementPrincipalSet_MarshalJSON_def if_not_P [OF two]
    by (simp add: mapGet_def)
  have c2: "fst (IAMPolicyStatementPrincipalSet_MarshalJSON
      [\<lparr>Type = T, Identifiers = AStrings l\<rparr>, \<lparr>Type = T, Identifiers = AString s\<rparr>])
     = Inr (JObject [(T, JString s)])"
    unfolding IAMPolicyStatementPrincipalSet_MarshalJSON_def if_not_P [OF two]
    by (simp add: mapGet_def)
  have c3: "fst (IAMPolicyStatementPrincipalSet_MarshalJSON
      [\<lparr>Type = T, Identifiers = AString s'\<rparr>, \<lparr>Type = T, Identifiers = AString s\<rparr>])
     = Inr (JObject [(T, JString s)])"
    unfolding IAMPolicyStatementPrincipalSet_MarshalJSON_def if_not_P [OF two]
    by (simp add: mapGet_def)
  have c4: "fst (IAMPolicyStatementPrincipalSet_MarshalJSON (pre @ \<lparr>Type = T, Identifiers = AStrings l\<rparr> # post))
          = Inl PanicInterfaceConversion"
    if loop: "principalLoop [] pre = (Inr raw, pre')" and at: "mapGet raw T = Some (AString s)"
  proof -
    from loop at have "pre \<noteq> []" by (auto simp: mapGet_def)
    then have long: "\<not> (length (pre @ \<lparr>Type = T, Identifiers = AStrings l\<rparr> # post) = 1
        \<and> isWildcardPrincipal (hd (pre @ \<lparr>Type = T, Identifiers = AStrings l\<rparr> # post)))"
      by (cases pre) auto
    show ?thesis
      unfolding IAMPolicyStatementPrincipalSet_MarshalJSON_def if_not_P [OF long]
      by (simp add: principalLoop_append loop at)
  qed
  have c5: "fst (IAMPolicyStatementPrincipalSet_MarshalJSON (pre @ [\<lparr>Type = T, Identifiers = AString s\<rparr>]))
          = Inr (marshalAny (AMap (mapSet T (AString s) raw)))"
    if loop: "principalLoop [] pre = (Inr raw, pre')" and ne: "pre \<noteq> []"
  proof -
    from ne have long: "\<not> (length (pre @ [\<lparr>Type = T, Identifiers = AString s\<rparr>]) = 1
        \<and> isWildcardPrincipal (hd (pre @ [\<lparr>Type = T, Identifiers = AString s\<rparr>])))"
      by (cases pre) auto
    show ?thesis
      unfolding IAMPolicyStatementPrincipalSet_MarshalJSON_def if_not_P [OF long]
      by (simp add: principalLoop_append loop)
  qed
  from c1 c2 c3 c4 c5 show ?thesis by blast
qed

theorem string_then_list_panics_witness:
  "principalLoop [] [\<lparr>Type = ''Service'', Identifiers = AStrings [''b'']\<rparr>, \<lparr>Type = ''AWS'', Identifiers = AString ''x''\<rparr>]
     = (Inr [(''AWS'', AString ''x''), (''Service'', AStrings [''b''])],
        [\<lparr>Type = ''Service'', Identifiers = AStrings [''b'']\<rparr>, \<lparr>Type = ''AWS'', Identifiers = AString ''x''\<rparr>])
   \<and> mapGet [(''AWS'', AString ''x''), (''Service'', AStrings [''b''])] ''AWS'' = Some (AString ''x'')
   \<and> fst (IAMPolicyStatementPrincipalSet_MarshalJSON
        [\<lparr>Type = ''Service'', Identifiers = AStrings [''b'']\<rparr>, \<lparr>Type = ''AWS'', Identifiers = AString ''x''\<rparr>,
         \<lparr>Type = ''AWS'', Identifiers = AStrings [''arn:a'']\<rparr>]) = Inl PanicInterfaceConversion
   \<and> fst (IAMPolicyStatementPrincipalSet_MarshalJSON
        [\<lparr>Type = ''Service'', Identifiers = AStrings [''b'']\<rparr>, \<lparr>Type = ''AWS'', Identifiers = AString ''x''\<rparr>,
         \<lparr>Type = ''Service'', Identifiers = AString ''y''\<rparr>])
       = Inr (JObject [(''AWS'', JString ''x''), (''Service'', JString ''y'')])"
proof -
  let ?pre = "[\<lparr>Type = ''Service'', Identifiers = AStrings [''b'']\<rparr>, \<lparr>Type = ''AWS'', Identifiers = AString ''x''\<rparr>]"
  let ?raw = "[(''AWS'', AString ''x''), (''Service'', AStrings [''b''])]"
  have loop: "principalLoop [] ?pre = (Inr ?raw, ?pre)" by code_simp
  have at: "mapGet ?raw ''AWS'' = Some (AString ''x'')" by code_simp
  have ne: "?pre \<noteq> []" by simp
  have set: "marshalAny (AMap (mapSet ''Service'' (AString ''y'') ?raw))
     = JObject [(''AWS'', JString ''x''), (''Service'', JString ''y'')]" by code_simp
  from string_then_list_panics [of "''AWS''" "''x''" "[''arn:a'']" "''x''" ?pre ?raw ?pre "[]"]
    string_then_list_panics [of "''Service''" "''y''" "[]" "''y''" ?pre ?raw ?pre "[]"]
    loop at ne set
  show ?thesis by simp
qed

section \<open>What encoding does to its argument\<close>

lemma principalLoop_effect:
  "list_all2 (\<lambda>p p'. Type p' = Type p \<and>
        (Identifiers p' = Identifiers p \<or>
         (\<exists>l. Identifiers p = AStrings l \<and> Identifiers p' = AStrings (sortDesc l))))
     ps (snd (principalLoop raw ps))"
proof (induction ps arbitrary: raw)
  case Nil
  then show ?case by simp
next
  case (Cons p ps)
  have same: "list_all2 (\<lambda>p p'. Type p' = Type p \<and>
        (Identifiers p' = Identifiers p \<or>
         (\<exists>l. Identifiers p = AStrings l \<and> Identifiers p' = AStrings (sortDesc l)))) ps ps"
    by (simp add: list_all2_same)
  show ?case
    using Cons.IH same
    by (simp add: Let_def split_beta split: any.splits option.splits)
qed

lemma principalLoop_effect_success:
  "fst (principalLoop raw ps) = Inr raw' \<Longrightarrow> snd (principalLoop raw ps) = map sortedPrincipal ps"
proof (induction ps arbitrary: raw)
  case Nil
  then show ?case by simp
next
  case (Cons p ps)
  then show ?case
    by (auto simp: Let_def split_beta sortedPrincipal_def split: any.splits option.splits)
qed

lemma conditionLoop_effect:
  "list_all2 (\<lambda>c c'. Test c' = Test c \<and> Variable c' = Variable c \<and>
        (Values c' = Values c \<or>
         (\<exists>l. Values c = AStrings l \<and> Values c' = AStrings (sortDesc l))))
     cs (snd (conditionLoop raw cs))"
proof (induction cs arbitrary: raw)
  case Nil
  then show ?case by simp
next
  case (Cons c cs)
  have same: "list_all2 (\<lambda>c c'. Test c' = Test c \<and> Variable c' = Variable c \<and>
        (Values c' = Values c \<or>
         (\<exists>l. Values c = AStrings l \<and> Values c' = AStrings (sortDesc l)))) cs cs"
    by (simp add: list_all2_same)
  show ?case
    using Cons.IH same
    by (simp add: Let_def split_beta split: any.splits option.splits)
qed

lemma conditionLoop_effect_success:
  "fst (conditionLoop raw cs) = Inr raw' \<Longrightarrow> snd (conditionLoop raw cs) = map sortedCondition cs"
proof (induction cs arbitrary: raw)
  case Nil
  then show ?case by simp
next
  case (Cons c cs)
  then show ?case
    by (auto simp: Let_def split_beta sortedCondition_def split: any.splits option.splits)
qed

lemma snd_PrincipalSet_MarshalJSON:
  "snd (IAMPolicyStatementPrincipalSet_MarshalJSON ps) =
     (if length ps = 1 \<and> isWildcardPrincipal (hd ps) then ps else snd (principalLoop [] ps))"
  by (simp add: IAMPolicyStatementPrincipalSet_MarshalJSON_def split: prod.splits sum.splits del: One_nat_def)

lemma fst_PrincipalSet_MarshalJSON:
  "fst (IAMPolicyStatementPrincipalSet_MarshalJSON ps) =
     (if length ps = 1 \<and> isWildcardPrincipal (hd ps) then Inr (JString ''*'')
      else (case fst (principalLoop [] ps) of Inl e \<Rightarrow> Inl e | Inr raw \<Rightarrow> Inr (marshalAny (AMap raw))))"
  by (simp add: IAMPolicyStatementPrincipalSet_MarshalJSON_def split: prod.splits sum.splits del: One_nat_def)

lemma snd_ConditionSet_MarshalJSON:
  "snd (IAMPolicyStatementConditionSet_MarshalJSON cs) = snd (conditionLoop [] cs)"
  by (simp add: IAMPolicyStatementConditionSet_MarshalJSON_def split: prod.splits sum.splits)

lemma fst_ConditionSet_MarshalJSON:
  "fst (IAMPolicyStatementConditionSet_MarshalJSON cs) =
     (case fst (conditionLoop [] cs) of
        Inl e \<Rightarrow> Inl e
      | Inr raw \<Rightarrow> Inr (JObject (map (\<lambda>(t, inner). (t, marshalAny (AMap inner))) raw)))"
  by (simp add: IAMPolicyStatementConditionSet_MarshalJSON_def split: prod.splits sum.splits)

text \<open>
  C7, as the code has it. Encoding a principal set or a condition set sorts the caller's
  lists in place: afterwards every entry has its type (its test and variable) and, for a
  string, its value as before, and every list holds the same elements, either as it was
  or in descending order. When the encoding succeeds other than by the wildcard shortcut,
  every list is in descending order; the wildcard shortcut leaves the set untouched.
  \<open>iamPolicyDecodeConfigStringList\<close> sorts a copy and leaves its argument as it was.
\<close>

theorem encoding_sorts_lists_in_place:
  "list_all2 (\<lambda>p p'. Type p' = Type p \<and>
        (Identifiers p' = Identifiers p \<or>
         (\<exists>l. Identifiers p = AStrings l \<and> Identifiers p' = AStrings (sortDesc l))))
     ps (snd (IAMPolicyStatementPrincipalSet_MarshalJSON ps))
   \<and> list_all2 (\<lambda>c c'. Test c' = Test c \<and> Variable c' = Variable c \<and>
        (Values c' = Values c \<or>
         (\<exists>l. Values c = AStrings l \<and> Values c' = AStrings (sortDesc l))))
     cs (snd (IAMPolicyStatementConditionSet_MarshalJSON cs))
   \<and> (length ps = 1 \<and> isWildcardPrincipal (hd ps) \<longrightarrow>
        snd (IAMPolicyStatementPrincipalSet_MarshalJSON ps) = ps)
   \<and> (fst (IAMPolicyStatementPrincipalSet_MarshalJSON ps) = Inr j
        \<and> \<not> (length ps = 1 \<and> isWildcardPrincipal (hd ps)) \<longrightarrow>
        snd (IAMPolicyStatementPrincipalSet_MarshalJSON ps) = map sortedPrincipal ps)
   \<and> (fst (IAMPolicyStatementConditionSet_MarshalJSON cs) = Inr j' \<longrightarrow>
        snd (IAMPolicyStatementConditionSet_MarshalJSON cs) = map sortedCondition cs)
   \<and> mset (sortDesc l) = mset l \<and> sorted (rev (sortDesc l))
   \<and> snd (iamPolicyDecodeConfigStringList lI) = lI"
proof -
  have same: "list_all2 (\<lambda>p p'. Type p' = Type p \<and>
        (Identifiers p' = Identifiers p \<or>
         (\<exists>l. Identifiers p = AStrings l \<and> Identifiers p' = AStrings (sortDesc l)))) ps ps"
    by (simp add: list_all2_same)
  have p1: "list_all2 (\<lambda>p p'. Type p' = Type p \<and>
        (Identifiers p' = Identifiers p \<or>
         (\<exists>l. Identifiers p = AStrings l \<and> Identifiers p' = AStrings (sortDesc l))))
     ps (snd (IAMPolicyStatementPrincipalSet_MarshalJSON ps))"
    unfolding snd_PrincipalSet_MarshalJSON using same principalLoop_effect [of ps "[]"]
    by (simp del: One_nat_def)
  have p2: "list_all2 (\<lambda>c c'. Test c' = Test c \<and> Variable c' = Variable c \<and>
        (Values c' = Values c \<or>
         (\<exists>l. Values c = AStrings l \<and> Values c' = AStrings (sortDesc l))))
     cs (snd (IAMPolicyStatementConditionSet_MarshalJSON cs))"
    unfolding snd_ConditionSet_MarshalJSON by (rule conditionLoop_effect)
  have p3: "snd (IAMPolicyStatementPrincipalSet_MarshalJSON ps) = ps"
    if "length ps = 1 \<and> isWildcardPrincipal (hd ps)"
    using that by (simp add: snd_PrincipalSet_MarshalJSON del: One_nat_def)
  have p4: "snd (IAMPolicyStatementPrincipalSet_MarshalJSON ps) = map sortedPrincipal ps"
    if ok: "fst (IAMPolicyStatementPrincipalSet_MarshalJSON ps) = Inr j"
      and general: "\<not> (length ps = 1 \<and> isWildcardPrincipal (hd ps))"
  proof -
    from ok general obtain raw where "fst (principalLoop [] ps) = Inr raw"
      by (auto simp: fst_PrincipalSet_MarshalJSON split: sum.splits simp del: One_nat_def)
    then have "snd (principalLoop [] ps) = map sortedPrincipal ps"
      by (rule principalLoop_effect_success)
    with general show ?thesis
      unfolding snd_PrincipalSet_MarshalJSON by (simp only: if_False)
  qed
  have p5: "snd (IAMPolicyStatementConditionSet_MarshalJSON cs) = map sortedCondition cs"
    if ok: "fst (IAMPolicyStatementConditionSet_MarshalJSON cs) = Inr j'"
  proof -
    from ok obtain raw where "fst (conditionLoop [] cs) = Inr raw"
      by (auto simp: fst_ConditionSet_MarshalJSON split: sum.splits)
    then have "snd (conditionLoop [] cs) = map sortedCondition cs"
      by (rule conditionLoop_effect_success)
    then show ?thesis by (simp add: snd_ConditionSet_MarshalJSON)
  qed
  have p6: "mset (sortDesc l) = mset l" "sorted (rev (sortDesc l))"
    by (simp_all add: sortDesc_def)
  have p7: "snd (iamPolicyDecodeConfigStringList lI) = lI"
    by (simp add: iamPolicyDecodeConfigStringList_def split: any.splits sum.splits del: One_nat_def)
  from p1 p2 p3 p4 p5 p6 p7 show ?thesis by blast
qed

theorem encoding_sorts_lists_in_place_witness:
  "snd (IAMPolicyStatementPrincipalSet_MarshalJSON [\<lparr>Type = ''AWS'', Identifiers = AStrings [''*'']\<rparr>])
     = [\<lparr>Type = ''AWS'', Identifiers = AStrings [''*'']\<rparr>]
   \<and> snd (IAMPolicyStatementPrincipalSet_MarshalJSON
        [\<lparr>Type = ''AWS'', Identifiers = AStrings [''arn:a'', ''arn:b'']\<rparr>,
         \<lparr>Type = ''Service'', Identifiers = AString ''s''\<rparr>])
     = [\<lparr>Type = ''AWS'', Identifiers = AStrings [''arn:b'', ''arn:a'']\<rparr>,
        \<lparr>Type = ''Service'', Identifiers = AString ''s''\<rparr>]
   \<and> snd (IAMPolicyStatementConditionSet_MarshalJSON
        [\<lparr>Test = ''StringEquals'', Variable = ''key'', Values = AStrings [''a'', ''b'']\<rparr>])
     = [\<lparr>Test = ''StringEquals'', Variable = ''key'', Values = AStrings [''b'', ''a'']\<rparr>]
   \<and> snd (iamPolicyDecodeConfigStringList [AString ''a'', AString ''b'']) = [AString ''a'', AString ''b'']"
proof -
  let ?w = "[\<lparr>Type = ''AWS'', Identifiers = AStrings [''*'']\<rparr>]"
  let ?ps = "[\<lparr>Type = ''AWS'', Identifiers = AStrings [''arn:a'', ''arn:b'']\<rparr>,
              \<lparr>Type = ''Service'', Identifiers = AString ''s''\<rparr>]"
  let ?cs = "[\<lparr>Test = ''StringEquals'', Variable = ''key'', Values = AStrings [''a'', ''b'']\<rparr>]"
  let ?j = "JObject [(''AWS'', JArray [JString ''arn:b'', JString ''arn:a'']), (''Service'', JString ''s'')]"
  let ?j' = "JObject [(''StringEquals'', JObject [(''key'', JArray [JString ''b'', JString ''a''])])]"
  have w: "length ?w = 1 \<and> isWildcardPrincipal (hd ?w)" by (simp add: isWildcardPrincipal_def)
  have ok: "fst (IAMPolicyStatementPrincipalSet_MarshalJSON ?ps) = Inr ?j" by code_simp
  have general: "\<not> (length ?ps = 1 \<and> isWildcardPrincipal (hd ?ps))" by simp
  have ok': "fst (IAMPolicyStatementConditionSet_MarshalJSON ?cs) = Inr ?j'" by code_simp
  have s1: "map sortedPrincipal ?ps = [\<lparr>Type = ''AWS'', Identifiers = AStrings [''arn:b'', ''arn:a'']\<rparr>,
        \<lparr>Type = ''Service'', Identifiers = AString ''s''\<rparr>]" by code_simp
  have s2: "map sortedCondition ?cs
     = [\<lparr>Test = ''StringEquals'', Variable = ''key'', Values = AStrings [''b'', ''a'']\<rparr>]" by code_simp
  from encoding_sorts_lists_in_place [of ?w ?cs ?j ?j' "[]" "[AString ''a'', AString ''b'']"]
    encoding_sorts_lists_in_place [of ?ps ?cs ?j ?j' "[]" "[AString ''a'', AString ''b'']"]
    w ok general ok' s1 s2
  show ?thesis by (simp del: One_nat_def)
qed

text \<open>
  The claim C7 as worded fails: after encoding, the caller's list \<open>["arn:a","arn:b"]\<close>
  reads \<open>["arn:b","arn:a"]\<close>.
\<close>

theorem encoding_reorders_callers_list:
  "snd (IAMPolicyStatementPrincipalSet_MarshalJSON
      [\<lparr>Type = ''AWS'', Identifiers = AStrings [''arn:a'', ''arn:b'']\<rparr>])
     = [\<lparr>Type = ''AWS'', Identifiers = AStrings [''arn:b'', ''arn:a'']\<rparr>]
   \<and> snd (IAMPolicyStatementPrincipalSet_MarshalJSON
      [\<lparr>Type = ''AWS'', Identifiers = AStrings [''arn:a'', ''arn:b'']\<rparr>])
     \<noteq> [\<lparr>Type = ''AWS'', Identifiers = AStrings [''arn:a'', ''arn:b'']\<rparr>]
   \<and> snd (IAMPolicyStatementConditionSet_MarshalJSON
      [\<lparr>Test = ''StringEquals'', Variable = ''key'', Values = AStrings [''a'', ''b'']\<rparr>])
     \<noteq> [\<lparr>Test = ''StringEquals'', Variable = ''key'', Values = AStrings [''a'', ''b'']\<rparr>]"
  by code_simp

section \<open>De-duplication by sid\<close>

lemma DeDupSids_loop_done: "DeDupSids_loop l n n st = Inr st"
  by (cases st) (simp add: DeDupSids_loop.simps)

lemma DeDupSids_loop_step:
  assumes "i < n" and "l - int i = int j" and "j < length stmts" and "stmts ! j = Some s"
  shows "DeDupSids_loop l n i (stmts, seen) =
     (if Sid s \<noteq> [] then
        DeDupSids_loop l n (Suc i)
          (if seen (Sid s) then take j stmts @ drop (Suc j) stmts else stmts, seen(Sid s := True))
      else DeDupSids_loop l n (Suc i) (stmts, seen))"
  using assms by (subst DeDupSids_loop.simps) (simp add: Let_def)

lemma DeDupSids_loop_invariant:
  "k \<le> length ss \<Longrightarrow>
   DeDupSids_loop (int (length ss) - 1) (length ss) (length ss - k)
     (map Some (take k ss @ lastOccurrences (drop k ss)),
      \<lambda>sid. sid \<noteq> [] \<and> sid \<in> set (map Sid (drop k ss)))
   = Inr (map Some (lastOccurrences ss), \<lambda>sid. sid \<noteq> [] \<and> sid \<in> set (map Sid ss))"
proof (induction k)
  case 0
  show ?case by (simp add: DeDupSids_loop_done)
next
  case (Suc k)
  let ?n = "length ss"
  let ?s = "ss ! k"
  let ?stmts = "map Some (take (Suc k) ss @ lastOccurrences (drop (Suc k) ss))"
  let ?seen = "\<lambda>sid. sid \<noteq> [] \<and> sid \<in> set (map Sid (drop (Suc k) ss))"
  from Suc.prems have k: "k < ?n" by simp
  have dropk: "drop k ss = ?s # drop (Suc k) ss"
    using k by (simp add: Cons_nth_drop_Suc)
  have takek: "take (Suc k) ss = take k ss @ [?s]"
    using k by (simp add: take_Suc_conv_app_nth)
  have i: "?n - Suc k < ?n" using k by simp
  have j: "int ?n - 1 - int (?n - Suc k) = int k" using k by simp
  have inrange: "k < length ?stmts" using k by simp
  have at: "?stmts ! k = Some ?s"
    using k by (simp add: takek nth_append)
  have removed: "take k ?stmts @ drop (Suc k) ?stmts = map Some (take k ss @ lastOccurrences (drop (Suc k) ss))"
    using k by (simp add: takek take_map drop_map)
  have next_i: "Suc (?n - Suc k) = ?n - k" using k by simp
  have seen': "?seen(Sid ?s := True) = (\<lambda>sid. sid \<noteq> [] \<and> sid \<in> set (map Sid (drop k ss)))"
    if "Sid ?s \<noteq> []"
    using that by (auto simp: dropk fun_eq_iff)
  have seen_same: "?seen = (\<lambda>sid. sid \<noteq> [] \<and> sid \<in> set (map Sid (drop k ss)))"
    if "Sid ?s = []"
    using that by (auto simp: dropk fun_eq_iff)
  have IH: "DeDupSids_loop (int ?n - 1) ?n (?n - k)
     (map Some (take k ss @ lastOccurrences (drop k ss)),
      \<lambda>sid. sid \<noteq> [] \<and> sid \<in> set (map Sid (drop k ss)))
   = Inr (map Some (lastOccurrences ss), \<lambda>sid. sid \<noteq> [] \<and> sid \<in> set (map Sid ss))"
    using Suc.IH k by simp
  note step = DeDupSids_loop_step [OF i j inrange at, of ?seen, unfolded next_i]
  show ?case
  proof (cases "Sid ?s = []")
    case True
    have keep: "?stmts = map Some (take k ss @ lastOccurrences (drop k ss))"
      using True by (simp add: dropk takek)
    have "DeDupSids_loop (int ?n - 1) ?n (?n - Suc k) (?stmts, ?seen)
        = DeDupSids_loop (int ?n - 1) ?n (?n - k) (?stmts, ?seen)"
      using step True by simp
    also have "\<dots> = DeDupSids_loop (int ?n - 1) ?n (?n - k)
        (map Some (take k ss @ lastOccurrences (drop k ss)),
         \<lambda>sid. sid \<noteq> [] \<and> sid \<in> set (map Sid (drop k ss)))"
      using keep seen_same [OF True] by simp
    finally show ?thesis using IH by simp
  next
    case False
    have new: "(if ?seen (Sid ?s) then take k ?stmts @ drop (Suc k) ?stmts else ?stmts)
        = map Some (take k ss @ lastOccurrences (drop k ss))"
      using False removed by (simp add: dropk takek)
    have "DeDupSids_loop (int ?n - 1) ?n (?n - Suc k) (?stmts, ?seen)
        = DeDupSids_loop (int ?n - 1) ?n (?n - k)
           (if ?seen (Sid ?s) then take k ?stmts @ drop (Suc k) ?stmts else ?stmts, ?seen(Sid ?s := True))"
      using step False by simp
    also have "\<dots> = DeDupSids_loop (int ?n - 1) ?n (?n - k)
        (map Some (take k ss @ lastOccurrences (drop k ss)),
         \<lambda>sid. sid \<noteq> [] \<and> sid \<in> set (map Sid (drop k ss)))"
      using new seen' [OF False] by simp
    finally show ?thesis using IH by simp
  qed
qed

lemma subseq_lastOccurrences: "subseq (lastOccurrences ss) ss"
  by (induction ss) auto

lemma empty_sids_kept:
  "filter (\<lambda>s. Sid s = []) (lastOccurrences ss) = filter (\<lambda>s. Sid s = []) ss"
  by (induction ss) auto

lemma sids_lastOccurrences: "set (map Sid (lastOccurrences ss)) = set (map Sid ss)"
  by (induction ss) auto

lemma distinct_sids_lastOccurrences:
  "distinct (filter (\<lambda>x. x \<noteq> []) (map Sid (lastOccurrences ss)))"
proof (induction ss)
  case Nil
  then show ?case by simp
next
  case (Cons s ss)
  then show ?case
    using sids_lastOccurrences [of ss] by auto
qed

text \<open>
  C3, as the code has it. For every document whose statement pointers are not nil,
  \<open>DeDupSids\<close> returns and leaves exactly the statements of \<open>lastOccurrences\<close>: a
  statement goes exactly when its non-empty sid occurs again later. The survivors keep
  their relative order, no statement with an empty sid is removed, every sid of the
  document is still there, and no non-empty sid is there twice. A nil statement slice
  stays nil.
\<close>

theorem DeDupSids_keeps_last_occurrences:
  "DeDupSids (d\<lparr>Statements := Some (map Some ss)\<rparr>)
     = Inr (d\<lparr>Statements := Some (map Some (lastOccurrences ss))\<rparr>)
   \<and> DeDupSids (d\<lparr>Statements := None\<rparr>) = Inr (d\<lparr>Statements := None\<rparr>)
   \<and> subseq (lastOccurrences ss) ss
   \<and> filter (\<lambda>s. Sid s = []) (lastOccurrences ss) = filter (\<lambda>s. Sid s = []) ss
   \<and> set (map Sid (lastOccurrences ss)) = set (map Sid ss)
   \<and> distinct (filter (\<lambda>x. x \<noteq> []) (map Sid (lastOccurrences ss)))"
proof -
  have "DeDupSids_loop (int (length ss) - 1) (length ss) 0 (map Some ss, \<lambda>sid. False)
     = Inr (map Some (lastOccurrences ss), \<lambda>sid. sid \<noteq> [] \<and> sid \<in> set (map Sid ss))"
    using DeDupSids_loop_invariant [of "length ss" ss] by simp
  then have "DeDupSids (d\<lparr>Statements := Some (map Some ss)\<rparr>)
     = Inr (d\<lparr>Statements := Some (map Some (lastOccurrences ss))\<rparr>)"
    by (simp add: DeDupSids_def)
  moreover have "DeDupSids (d\<lparr>Statements := None\<rparr>) = Inr (d\<lparr>Statements := None\<rparr>)"
    by (simp add: DeDupSids_def)
  ultimately show ?thesis
    using subseq_lastOccurrences empty_sids_kept sids_lastOccurrences distinct_sids_lastOccurrences
    by blast
qed

theorem DeDupSids_keeps_last_occurrences_witness:
  "DeDupSids \<lparr>Version = [], Id_doc = [], Statements = Some
      [Some (zeroStatement\<lparr>Sid := ''A'', Effect := ''1''\<rparr>),
       Some (zeroStatement\<lparr>Sid := ''B'', Effect := ''2''\<rparr>),
       Some (zeroStatement\<lparr>Sid := ''A'', Effect := ''3''\<rparr>),
       Some (zeroStatement\<lparr>Sid := ''C'', Effect := ''4''\<rparr>),
       Some (zeroStatement\<lparr>Sid := ''B'', Effect := ''5''\<rparr>)]\<rparr>
     = Inr \<lparr>Version = [], Id_doc = [], Statements = Some
      [Some (zeroStatement\<lparr>Sid := ''A'', Effect := ''3''\<rparr>),
       Some (zeroStatement\<lparr>Sid := ''C'', Effect := ''4''\<rparr>),
       Some (zeroStatement\<lparr>Sid := ''B'', Effect := ''5''\<rparr>)]\<rparr>
   \<and> DeDupSids \<lparr>Version = [], Id_doc = [], Statements = Some
      [Some (zeroStatement\<lparr>Sid := [], Effect := ''1''\<rparr>),
       Some (zeroStatement\<lparr>Sid := [], Effect := ''2''\<rparr>),
       Some (zeroStatement\<lparr>Sid := ''X'', Effect := ''3''\<rparr>)]\<rparr>
     = Inr \<lparr>Version = [], Id_doc = [], Statements = Some
      [Some (zeroStatement\<lparr>Sid := [], Effect := ''1''\<rparr>),
       Some (zeroStatement\<lparr>Sid := [], Effect := ''2''\<rparr>),
       Some (zeroStatement\<lparr>Sid := ''X'', Effect := ''3''\<rparr>)]\<rparr>"
proof -
  let ?ss = "[zeroStatement\<lparr>Sid := ''A'', Effect := ''1''\<rparr>,
       zeroStatement\<lparr>Sid := ''B'', Effect := ''2''\<rparr>,
       zeroStatement\<lparr>Sid := ''A'', Effect := ''3''\<rparr>,
       zeroStatement\<lparr>Sid := ''C'', Effect := ''4''\<rparr>,
       zeroStatement\<lparr>Sid := ''B'', Effect := ''5''\<rparr>]"
  let ?ts = "[zeroStatement\<lparr>Sid := [], Effect := ''1''\<rparr>,
       zeroStatement\<lparr>Sid := [], Effect := ''2''\<rparr>,
       zeroStatement\<lparr>Sid := ''X'', Effect := ''3''\<rparr>]"
  have a: "lastOccurrences ?ss = [zeroStatement\<lparr>Sid := ''A'', Effect := ''3''\<rparr>,
       zeroStatement\<lparr>Sid := ''C'', Effect := ''4''\<rparr>,
       zeroStatement\<lparr>Sid := ''B'', Effect := ''5''\<rparr>]"
    by code_simp
  have b: "lastOccurrences ?ts = ?ts"
    by code_simp
  from DeDupSids_keeps_last_occurrences [where d = "\<lparr>Version = [], Id_doc = [], Statements = None\<rparr>" and ss = ?ss]
    DeDupSids_keeps_last_occurrences [where d = "\<lparr>Version = [], Id_doc = [], Statements = None\<rparr>" and ss = ?ts]
  show ?thesis
    unfolding a b by simp
qed

text \<open>
  The claim C3 as worded fails: not every document is de-duplicated. \<open>Decode\<close> reads a
  \<^verbatim>\<open>null\<close> in the statement array as a nil pointer, and on such a document
  \<open>DeDupSids\<close> panics when line 46 reads the sid through it.
\<close>

theorem DeDupSids_panics_on_nil_statement:
  "Decode (\<lambda>ks. ks) (JObject [(''Statement'', JArray [JObject [(''Sid'', JString ''A'')], JNull])])
     = Inr \<lparr>Version = [], Id_doc = [], Statements = Some [Some (zeroStatement\<lparr>Sid := ''A''\<rparr>), None]\<rparr>
   \<and> DeDupSids \<lparr>Version = [], Id_doc = [], Statements = Some [Some (zeroStatement\<lparr>Sid := ''A''\<rparr>), None]\<rparr>
     = Inl PanicNilDereference"
  by code_simp

section \<open>The condition decoder\<close>

lemma finite_examples:
  "isFinite float64_1" "isFinite float64_2" "isFinite float64_5" "\<not> isFinite float64_Inf"
  by (simp_all add: isFinite_def float64_1_def float64_2_def float64_5_def float64_Inf_def)

lemma set_rangeMap:
  assumes "isRangeOrder rng"
  shows "set (rangeMap rng m) = {(k, v). mapGet m k = Some v}"
proof -
  from assms have "mset (rng (map fst m)) = mset (map fst m)"
    by (simp add: isRangeOrder_def)
  then have keys: "set (rng (map fst m)) = fst ` set m"
    by (metis set_mset_mset list.set_map)
  show ?thesis
    unfolding rangeMap_def
    by (auto simp: keys mapGet_def map_of_eq_None_iff image_iff split: option.splits
        dest: map_of_SomeD weak_map_of_SomeI)
qed

lemma rangeMap_subset:
  assumes "isRangeOrder rng"
  shows "set (rangeMap rng m) \<subseteq> set m"
  using set_rangeMap [OF assms, of m]
  by (auto simp: mapGet_def dest: map_of_SomeD)

lemma assertStrings_ok:
  "list_all holdsString vs \<Longrightarrow> \<exists>strs. assertStrings vs = Inr strs"
proof (induction vs)
  case Nil
  then show ?case by simp
next
  case (Cons v vs)
  then show ?case by (cases v) auto
qed

lemma assertStrings_fails:
  "\<not> list_all holdsString vs \<Longrightarrow> assertStrings vs = Inl PanicInterfaceConversion"
proof (induction vs)
  case Nil
  then show ?case by simp
next
  case (Cons v vs)
  then show ?case by (cases v) (auto split: sum.splits)
qed

lemma assertStrings_failure: "assertStrings vs = Inl e \<Longrightarrow> e = PanicInterfaceConversion"
proof (induction vs arbitrary: e)
  case Nil
  then show ?case by simp
next
  case (Cons v vs)
  then show ?case by (cases v) (auto split: sum.splits)
qed

text \<open>What one leaf contributes when its array, if it is one, holds strings only.\<close>

lemma conditionOfLeaf_ok:
  assumes "arrayOfStrings x"
  shows "\<exists>cs. conditionOfLeaf t v x = Inr cs
     \<and> (\<forall>c\<in>set cs. Test c = t \<and> Variable c = v)
     \<and> (cs \<noteq> [] \<longleftrightarrow> holdsString x \<or> holdsSlice x)"
proof (cases x)
  case (ASlice vs)
  with assms obtain strs where "assertStrings vs = Inr strs"
    using assertStrings_ok by auto
  with ASlice show ?thesis by simp
qed simp_all

lemma conditionOfLeaf_failure: "conditionOfLeaf t v x = Inl e \<Longrightarrow> e = PanicInterfaceConversion"
  by (cases x) (auto split: sum.splits dest: assertStrings_failure)

lemma variablesLoop_ok:
  assumes "list_all (\<lambda>kv. arrayOfStrings (snd kv)) kvs"
  shows "\<exists>cs. variablesLoop t kvs out = Inr (out @ cs)
     \<and> (\<forall>c\<in>set cs. Test c = t)
     \<and> (\<forall>v. (\<exists>c\<in>set cs. Variable c = v) \<longleftrightarrow> (\<exists>x. (v, x) \<in> set kvs \<and> (holdsString x \<or> holdsSlice x)))"
  using assms
proof (induction kvs arbitrary: out)
  case Nil
  then show ?case by simp
next
  case (Cons kv kvs)
  obtain v x where kv: "kv = (v, x)" by (cases kv)
  from Cons.prems kv have "arrayOfStrings x" by simp
  from conditionOfLeaf_ok [OF this, of t v]
  obtain cs1 where cs1: "conditionOfLeaf t v x = Inr cs1"
    "\<forall>c\<in>set cs1. Test c = t \<and> Variable c = v"
    "cs1 \<noteq> [] \<longleftrightarrow> holdsString x \<or> holdsSlice x"
    by blast
  from Cons.prems have "list_all (\<lambda>kv. arrayOfStrings (snd kv)) kvs" by simp
  from Cons.IH [OF this, of "out @ cs1"]
  obtain cs2 where cs2: "variablesLoop t kvs (out @ cs1) = Inr ((out @ cs1) @ cs2)"
    "\<forall>c\<in>set cs2. Test c = t"
    "\<forall>v. (\<exists>c\<in>set cs2. Variable c = v) \<longleftrightarrow> (\<exists>x. (v, x) \<in> set kvs \<and> (holdsString x \<or> holdsSlice x))"
    by blast
  have res: "variablesLoop t (kv # kvs) out = Inr (out @ (cs1 @ cs2))"
    using kv cs1(1) cs2(1) by simp
  have tests: "\<forall>c\<in>set (cs1 @ cs2). Test c = t"
    using cs1(2) cs2(2) by auto
  have vars: "(\<exists>c\<in>set (cs1 @ cs2). Variable c = w)
      \<longleftrightarrow> (\<exists>x. (w, x) \<in> set (kv # kvs) \<and> (holdsString x \<or> holdsSlice x))" for w
  proof -
    have "(\<exists>c\<in>set cs1. Variable c = w) \<longleftrightarrow> (w = v \<and> (holdsString x \<or> holdsSlice x))"
      using cs1(2,3) by (cases cs1) auto
    with cs2(3) kv show ?thesis by auto
  qed
  from res tests vars show ?case by blast
qed

lemma variablesLoop_failure: "variablesLoop t kvs out = Inl e \<Longrightarrow> e = PanicInterfaceConversion"
proof (induction kvs arbitrary: out)
  case Nil
  then show ?case by simp
next
  case (Cons kv kvs)
  then show ?case
    by (cases kv) (auto split: sum.splits dest: conditionOfLeaf_failure)
qed

lemma testsLoop_ok:
  assumes rng: "isRangeOrder rng"
    and "list_all (\<lambda>tv. list_all (\<lambda>kv. arrayOfStrings (snd kv)) (snd tv)) tests"
  shows "\<exists>cs. testsLoop rng tests out = Inr (out @ cs)
     \<and> (\<forall>t v. (\<exists>c\<in>set cs. Test c = t \<and> Variable c = v)
          \<longleftrightarrow> (\<exists>inner x. (t, inner) \<in> set tests \<and> mapGet inner v = Some x
                \<and> (holdsString x \<or> holdsSlice x)))"
  using assms(2)
proof (induction tests arbitrary: out)
  case Nil
  then show ?case by simp
next
  case (Cons tv tests)
  obtain t inner where tv: "tv = (t, inner)" by (cases tv)
  from Cons.prems tv have "list_all (\<lambda>kv. arrayOfStrings (snd kv)) inner" by simp
  then have "list_all (\<lambda>kv. arrayOfStrings (snd kv)) (rangeMap rng inner)"
    using rangeMap_subset [OF rng, of inner] by (auto simp: list_all_iff)
  from variablesLoop_ok [OF this, of t out]
  obtain cs1 where cs1: "variablesLoop t (rangeMap rng inner) out = Inr (out @ cs1)"
    "\<forall>c\<in>set cs1. Test c = t"
    "\<forall>v. (\<exists>c\<in>set cs1. Variable c = v)
       \<longleftrightarrow> (\<exists>x. (v, x) \<in> set (rangeMap rng inner) \<and> (holdsString x \<or> holdsSlice x))"
    by blast
  from Cons.prems have "list_all (\<lambda>tv. list_all (\<lambda>kv. arrayOfStrings (snd kv)) (snd tv)) tests"
    by simp
  from Cons.IH [OF this, of "out @ cs1"]
  obtain cs2 where cs2: "testsLoop rng tests (out @ cs1) = Inr ((out @ cs1) @ cs2)"
    "\<forall>t v. (\<exists>c\<in>set cs2. Test c = t \<and> Variable c = v)
          \<longleftrightarrow> (\<exists>inner x. (t, inner) \<in> set tests \<and> mapGet inner v = Some x
                \<and> (holdsString x \<or> holdsSlice x))"
    by blast
  have res: "testsLoop rng (tv # tests) out = Inr (out @ (cs1 @ cs2))"
    using tv cs1(1) cs2(1) by simp
  have first: "(\<exists>c\<in>set cs1. Test c = t' \<and> Variable c = v)
      \<longleftrightarrow> (t' = t \<and> (\<exists>x. mapGet inner v = Some x \<and> (holdsString x \<or> holdsSlice x)))" for t' v
    using cs1(2) cs1(3) [rule_format, of v] set_rangeMap [OF rng, of inner] by auto
  have both: "(\<exists>c\<in>set (cs1 @ cs2). Test c = t' \<and> Variable c = v)
      \<longleftrightarrow> (\<exists>inner x. (t', inner) \<in> set (tv # tests) \<and> mapGet inner v = Some x
                \<and> (holdsString x \<or> holdsSlice x))" for t' v
    using first [of t' v] cs2(2) [rule_format, of t' v] tv by auto
  from res both show ?case by blast
qed

lemma testsLoop_failure: "testsLoop rng tests out = Inl e \<Longrightarrow> e = PanicInterfaceConversion"
proof (induction tests arbitrary: out)
  case Nil
  then show ?case by simp
next
  case (Cons tv tests)
  then show ?case
    by (cases tv) (auto split: sum.splits dest: variablesLoop_failure)
qed

text \<open>
  C10, as the code has it. When line 146 reads the text into the two-level map without
  error (an object of objects, no number out of range) and every array among the leaves
  holds strings only, decoding succeeds in every order of map iteration, and the decoded
  set has an entry for a pair (test, variable) exactly when the leaf of that pair is a
  string or an array: a leaf of any other shape (number, boolean, object, null) leaves
  no entry and raises no error.
\<close>

theorem other_leaves_silently_omitted:
  assumes "isRangeOrder rng"
    and "unmarshalTwoLevel b = Inr data"
    and "arraysHoldStrings data"
  shows "\<exists>out. IAMPolicyStatementConditionSet_UnmarshalJSON rng b = Inr out
     \<and> (\<forall>t v. (\<exists>c\<in>set out. Test c = t \<and> Variable c = v)
          \<longleftrightarrow> (\<exists>inner x. mapGet data t = Some inner \<and> mapGet inner v = Some x
                \<and> (holdsString x \<or> holdsSlice x)))"
proof -
  from assms(3) have "list_all (\<lambda>tv. list_all (\<lambda>kv. arrayOfStrings (snd kv)) (snd tv)) (rangeMap rng data)"
    using rangeMap_subset [OF assms(1), of data]
    by (auto simp: arraysHoldStrings_def list_all_iff)
  from testsLoop_ok [OF assms(1) this, of "[]"]
  obtain out where out: "testsLoop rng (rangeMap rng data) [] = Inr out"
    "\<forall>t v. (\<exists>c\<in>set out. Test c = t \<and> Variable c = v)
          \<longleftrightarrow> (\<exists>inner x. (t, inner) \<in> set (rangeMap rng data) \<and> mapGet inner v = Some x
                \<and> (holdsString x \<or> holdsSlice x))"
    by auto
  have "IAMPolicyStatementConditionSet_UnmarshalJSON rng b = Inr out"
    using assms(2) out(1) by (simp add: IAMPolicyStatementConditionSet_UnmarshalJSON_def)
  moreover have "(\<exists>c\<in>set out. Test c = t \<and> Variable c = v)
          \<longleftrightarrow> (\<exists>inner x. mapGet data t = Some inner \<and> mapGet inner v = Some x
                \<and> (holdsString x \<or> holdsSlice x))" for t v
    using out(2) [rule_format, of t v] set_rangeMap [OF assms(1), of data] by auto
  ultimately show ?thesis by blast
qed

theorem other_leaves_silently_omitted_witness:
  "isRangeOrder rev
   \<and> unmarshalTwoLevel (JObject
        [(''StringEquals'', JObject [(''key'', JNumber float64_5), (''a'', JString ''x''),
                                     (''b'', JArray [JString ''z'', JString ''y''])]),
         (''Bool'', JObject [(''c'', JBool True), (''d'', JObject [(''e'', JNumber float64_1)]), (''f'', JNull)])])
     = Inr [(''Bool'', [(''c'', ABool True), (''d'', AMap [(''e'', AFloat64 float64_1)]), (''f'', ANil)]),
            (''StringEquals'', [(''a'', AString ''x''), (''b'', ASlice [AString ''z'', AString ''y'']),
                                (''key'', AFloat64 float64_5)])]
   \<and> arraysHoldStrings
        [(''Bool'', [(''c'', ABool True), (''d'', AMap [(''e'', AFloat64 float64_1)]), (''f'', ANil)]),
         (''StringEquals'', [(''a'', AString ''x''), (''b'', ASlice [AString ''z'', AString ''y'']),
                             (''key'', AFloat64 float64_5)])]
   \<and> IAMPolicyStatementConditionSet_UnmarshalJSON rev (JObject
        [(''StringEquals'', JObject [(''key'', JNumber float64_5), (''a'', JString ''x''),
                                     (''b'', JArray [JString ''z'', JString ''y''])]),
         (''Bool'', JObject [(''c'', JBool True), (''d'', JObject [(''e'', JNumber float64_1)]), (''f'', JNull)])])
     = Inr [\<lparr>Test = ''StringEquals'', Variable = ''b'', Values = AStrings [''z'', ''y'']\<rparr>,
            \<lparr>Test = ''StringEquals'', Variable = ''a'', Values = AStrings [''x'']\<rparr>]
   \<and> (\<exists>out. IAMPolicyStatementConditionSet_UnmarshalJSON rev (JObject
        [(''StringEquals'', JObject [(''key'', JNumber float64_5), (''a'', JString ''x''),
                                     (''b'', JArray [JString ''z'', JString ''y''])]),
         (''Bool'', JObject [(''c'', JBool True), (''d'', JObject [(''e'', JNumber float64_1)]), (''f'', JNull)])])
       = Inr out \<and> \<not> (\<exists>c\<in>set out. Test c = ''StringEquals'' \<and> Variable c = ''key''))"
proof -
  let ?b = "JObject
        [(''StringEquals'', JObject [(''key'', JNumber float64_5), (''a'', JString ''x''),
                                     (''b'', JArray [JString ''z'', JString ''y''])]),
         (''Bool'', JObject [(''c'', JBool True), (''d'', JObject [(''e'', JNumber float64_1)]), (''f'', JNull)])]"
  let ?data = "[(''Bool'', [(''c'', ABool True), (''d'', AMap [(''e'', AFloat64 float64_1)]), (''f'', ANil)]),
         (''StringEquals'', [(''a'', AString ''x''), (''b'', ASlice [AString ''z'', AString ''y'']),
                             (''key'', AFloat64 float64_5)])]"
  have h1: "isRangeOrder rev" by (simp add: isRangeOrder_def)
  have h2: "unmarshalTwoLevel ?b = Inr ?data" by code_simp
  have h3: "arraysHoldStrings ?data" by code_simp
  have r: "IAMPolicyStatementConditionSet_UnmarshalJSON rev ?b
     = Inr [\<lparr>Test = ''StringEquals'', Variable = ''b'', Values = AStrings [''z'', ''y'']\<rparr>,
            \<lparr>Test = ''StringEquals'', Variable = ''a'', Values = AStrings [''x'']\<rparr>]"
    by code_simp
  have leaf: "mapGet ?data ''StringEquals''
       = Some [(''a'', AString ''x''), (''b'', ASlice [AString ''z'', AString ''y'']), (''key'', AFloat64 float64_5)]"
    "mapGet [(''a'', AString ''x''), (''b'', ASlice [AString ''z'', AString ''y'']), (''key'', AFloat64 float64_5)] ''key''
       = Some (AFloat64 float64_5)"
    by code_simp+
  from other_leaves_silently_omitted [OF h1 h2 h3]
  obtain out where out: "IAMPolicyStatementConditionSet_UnmarshalJSON rev ?b = Inr out"
    "\<forall>t v. (\<exists>c\<in>set out. Test c = t \<and> Variable c = v)
          \<longleftrightarrow> (\<exists>inner x. mapGet ?data t = Some inner \<and> mapGet inner v = Some x
                \<and> (holdsString x \<or> holdsSlice x))"
    by blast
  from out(2) [rule_format, of "''StringEquals''" "''key''"] leaf
  have "\<not> (\<exists>c\<in>set out. Test c = ''StringEquals'' \<and> Variable c = ''key'')"
    by simp
  with out(1) h1 h2 h3 r show ?thesis by blast
qed

text \<open>
  The claim C10 as worded fails. Beside a leaf that is a number, another leaf that is an
  array with a number in it makes the decoding panic on line 158, in either order of the
  two tests; and a leaf that is a number out of range makes line 146 return an error.
\<close>

theorem other_leaf_not_always_omitted:
  "unmarshalTwoLevel (JObject [(''A'', JObject [(''x'', JNumber float64_5)]),
                               (''B'', JObject [(''y'', JArray [JNumber float64_1])])])
     = Inr [(''A'', [(''x'', AFloat64 float64_5)]), (''B'', [(''y'', ASlice [AFloat64 float64_1])])]
   \<and> IAMPolicyStatementConditionSet_UnmarshalJSON (\<lambda>ks. ks)
       (JObject [(''A'', JObject [(''x'', JNumber float64_5)]),
                 (''B'', JObject [(''y'', JArray [JNumber float64_1])])])
     = Inl PanicInterfaceConversion
   \<and> IAMPolicyStatementConditionSet_UnmarshalJSON rev
       (JObject [(''A'', JObject [(''x'', JNumber float64_5)]),
                 (''B'', JObject [(''y'', JArray [JNumber float64_1])])])
     = Inl PanicInterfaceConversion
   \<and> IAMPolicyStatementConditionSet_UnmarshalJSON (\<lambda>ks. ks)
       (JObject [(''A'', JObject [(''x'', JNumber float64_Inf)])])
     = Inl ErrUnmarshalType"
  by code_simp

text \<open>
  C5, on the code. The array \<open>[1,2]\<close> under a condition key makes the unchecked
  assertion \<^verbatim>\<open>v.(string)\<close> of line 158 panic, whatever order \<^verbatim>\<open>range\<close> takes; the
  panic is not an error value, and it also ends the decoding of a whole document.
\<close>

theorem non_string_array_element_panics:
  assumes "isRangeOrder rng"
  shows "IAMPolicyStatementConditionSet_UnmarshalJSON rng
       (JObject [(''StringEquals'', JObject [(''key'', JArray [JNumber float64_1, JNumber float64_2])])])
     = Inl PanicInterfaceConversion
   \<and> isPanic PanicInterfaceConversion
   \<and> Decode rng (JObject [(''Statement'', JArray [JObject [(''Condition'',
         JObject [(''StringEquals'', JObject [(''key'', JArray [JNumber float64_1, JNumber float64_2])])])]])])
     = Inl PanicInterfaceConversion"
proof -
  have single: "rng [k] = [k]" for k
  proof -
    from assms have "mset (rng [k]) = mset [k]" by (simp add: isRangeOrder_def)
    then show ?thesis by (metis mset_single_iff mset.simps(2) mset_zero_iff single_is_union)
  qed
  have cond: "IAMPolicyStatementConditionSet_UnmarshalJSON rng
       (JObject [(''StringEquals'', JObject [(''key'', JArray [JNumber float64_1, JNumber float64_2])])])
     = Inl PanicInterfaceConversion"
    by (simp add: IAMPolicyStatementConditionSet_UnmarshalJSON_def rangeMap_def single mapGet_def
        finite_examples)
  have names: "foldName ''Statement'' \<noteq> foldName ''Version''" "foldName ''Statement'' \<noteq> foldName ''Id''"
    "foldName ''Condition'' \<noteq> foldName ''Sid''" "foldName ''Condition'' \<noteq> foldName ''Effect''"
    "foldName ''Condition'' \<noteq> foldName ''Action''" "foldName ''Condition'' \<noteq> foldName ''NotAction''"
    "foldName ''Condition'' \<noteq> foldName ''Resource''" "foldName ''Condition'' \<noteq> foldName ''NotResource''"
    "foldName ''Condition'' \<noteq> foldName ''Principal''" "foldName ''Condition'' \<noteq> foldName ''NotPrincipal''"
    by code_simp+
  have "Decode rng (JObject [(''Statement'', JArray [JObject [(''Condition'',
         JObject [(''StringEquals'', JObject [(''key'', JArray [JNumber float64_1, JNumber float64_2])])])]])])
     = Inl PanicInterfaceConversion"
    unfolding Decode_def
    by (simp add: decodeDocMember_def decodeStatementMember_def Let_def names cond del: foldName.simps)
  with cond show ?thesis by simp
qed

theorem non_string_array_element_panics_witness:
  "isRangeOrder (\<lambda>ks. ks)
   \<and> IAMPolicyStatementConditionSet_UnmarshalJSON (\<lambda>ks. ks)
       (JObject [(''StringEquals'', JObject [(''key'', JArray [JNumber float64_1, JNumber float64_2])])])
     = Inl PanicInterfaceConversion
   \<and> Decode (\<lambda>ks. ks) (JObject [(''Statement'', JArray [JObject [(''Condition'',
         JObject [(''StringEquals'', JObject [(''key'', JArray [JNumber float64_1, JNumber float64_2])])])]])])
     = Inl PanicInterfaceConversion"
proof -
  have h: "isRangeOrder (\<lambda>ks. ks)" by (simp add: isRangeOrder_def)
  from non_string_array_element_panics [OF h] h show ?thesis by simp
qed

section \<open>Statements and documents: what is written, what is read\<close>

lemma decodeStatementMembers_append:
  "decodeStatementMembers rng (xs @ ys) st =
     (case decodeStatementMembers rng xs st of
        Inl e \<Rightarrow> Inl e
      | Inr st' \<Rightarrow> decodeStatementMembers rng ys st')"
  by (induction xs arbitrary: st) (auto split: sum.splits)

lemma foldName_Action:
  "foldName ''Action'' \<noteq> foldName ''Sid''" "foldName ''Action'' \<noteq> foldName ''Effect''"
  by code_simp+

lemma foldName_Statement:
  "foldName ''Statement'' \<noteq> foldName ''Version''" "foldName ''Statement'' \<noteq> foldName ''Id''"
  by code_simp+

lemma decodeInterface_nil:
  "decodeInterface v (ANil, saved)
     = (unmarshalAny v, if outOfRange v then saveError saved ErrUnmarshalType else saved)"
  by (cases v) simp_all

lemma decodeInterface_in_range:
  "\<not> outOfRange v \<Longrightarrow> decodeInterface v (old, saved) = (unmarshalAny v, saved)"
  by (cases v) simp_all

lemma decodeStatementMember_Action:
  "decodeStatementMember rng (''Action'', v) (s, saved)
     = (case decodeInterface v (Actions s, saved) of (x, saved') \<Rightarrow> Inr (s\<lparr>Actions := x\<rparr>, saved'))"
  unfolding decodeStatementMember_def Let_def fst_conv snd_conv
  by (simp only: foldName_Action if_False if_True simp_thms)

text \<open>
  C4, as the code has it. \<open>Actions\<close> is a plain \<^verbatim>\<open>interface{}\<close> and nothing checks
  its shape: an \<open>"Action"\<close> member of any JSON shape is stored as the generic decoded
  value, the number 5 as the \<^verbatim>\<open>float64\<close> 5. The one error such a member can bring is
  the library's \<^verbatim>\<open>UnmarshalTypeError\<close> for a number out of range, which the decoding
  of the document returns in the end. Added to a statement that decodes, a member with
  no such number changes neither the success nor the other fields.
\<close>

theorem action_of_any_shape_is_stored:
  "decodeStatementPointer rng (JObject [(''Action'', v)]) (None, None)
     = Inr (Some (zeroStatement\<lparr>Actions := unmarshalAny v\<rparr>),
            if outOfRange v then Some ErrUnmarshalType else None)
   \<and> Decode rng (JObject [(''Statement'', JArray [JObject [(''Action'', v)]])])
     = (if outOfRange v then Inl ErrUnmarshalType
        else Inr (zeroDoc\<lparr>Statements := Some [Some (zeroStatement\<lparr>Actions := unmarshalAny v\<rparr>)]\<rparr>))
   \<and> (\<not> outOfRange v \<longrightarrow> decodeStatementMembers rng ms st = Inr (s, saved) \<longrightarrow>
        decodeStatementMembers rng (ms @ [(''Action'', v)]) st
          = Inr (s\<lparr>Actions := unmarshalAny v\<rparr>, saved))"
proof -
  have one: "decodeStatementPointer rng (JObject [(''Action'', v)]) (None, None)
     = Inr (Some (zeroStatement\<lparr>Actions := unmarshalAny v\<rparr>),
            if outOfRange v then Some ErrUnmarshalType else None)"
    by (simp add: decodeStatementMember_Action decodeInterface_nil pointee_def zeroStatement_def
        saveError_def del: foldName.simps)
  have stmt: "decodeDocMember rng (''Statement'', JArray [JObject [(''Action'', v)]]) (zeroDoc, [], None)
     = Inr (zeroDoc\<lparr>Statements := Some [Some (zeroStatement\<lparr>Actions := unmarshalAny v\<rparr>)]\<rparr>, [],
            if outOfRange v then Some ErrUnmarshalType else None)"
    unfolding decodeDocMember_def Let_def fst_conv snd_conv
    by (simp add: foldName_Statement one zeroDoc_def del: foldName.simps decodeStatementPointer.simps)
  have doc: "Decode rng (JObject [(''Statement'', JArray [JObject [(''Action'', v)]])])
     = (if outOfRange v then Inl ErrUnmarshalType
        else Inr (zeroDoc\<lparr>Statements := Some [Some (zeroStatement\<lparr>Actions := unmarshalAny v\<rparr>)]\<rparr>))"
    by (simp add: Decode_def stmt del: foldName.simps)
  have more: "decodeStatementMembers rng (ms @ [(''Action'', v)]) st
          = Inr (s\<lparr>Actions := unmarshalAny v\<rparr>, saved)"
    if "\<not> outOfRange v" "decodeStatementMembers rng ms st = Inr (s, saved)"
    using that
    by (simp add: decodeStatementMembers_append decodeStatementMember_Action decodeInterface_in_range
        del: foldName.simps)
  from one doc more show ?thesis by simp
qed

theorem action_of_any_shape_is_stored_witness:
  "\<not> outOfRange (JObject [(''a'', JNumber float64_5)])
   \<and> decodeStatementMembers (\<lambda>ks. ks) [(''Sid'', JString ''S1''), (''Effect'', JString ''Allow'')] (zeroStatement, None)
     = Inr (zeroStatement\<lparr>Sid := ''S1'', Effect := ''Allow''\<rparr>, None)
   \<and> decodeStatementMembers (\<lambda>ks. ks)
        [(''Sid'', JString ''S1''), (''Effect'', JString ''Allow''), (''Action'', JObject [(''a'', JNumber float64_5)])]
        (zeroStatement, None)
     = Inr (zeroStatement\<lparr>Sid := ''S1'', Effect := ''Allow'', Actions := AMap [(''a'', AFloat64 float64_5)]\<rparr>, None)
   \<and> Decode (\<lambda>ks. ks) (JObject [(''Statement'', JArray [JObject [(''Action'', JArray [JNumber float64_Inf])]])])
     = Inl ErrUnmarshalType"
proof -
  have r: "\<not> outOfRange (JObject [(''a'', JNumber float64_5)])"
    by (simp add: finite_examples)
  have h: "decodeStatementMembers (\<lambda>ks. ks) [(''Sid'', JString ''S1''), (''Effect'', JString ''Allow'')]
      (zeroStatement, None) = Inr (zeroStatement\<lparr>Sid := ''S1'', Effect := ''Allow''\<rparr>, None)"
    by code_simp
  have v: "unmarshalAny (JObject [(''a'', JNumber float64_5)]) = AMap [(''a'', AFloat64 float64_5)]"
    by (simp add: finite_examples)
  have o: "outOfRange (JArray [JNumber float64_Inf])"
    by (simp add: finite_examples)
  from action_of_any_shape_is_stored [of "\<lambda>ks. ks" "JObject [(''a'', JNumber float64_5)]"
      "[(''Sid'', JString ''S1''), (''Effect'', JString ''Allow'')]" "(zeroStatement, None)"
      "zeroStatement\<lparr>Sid := ''S1'', Effect := ''Allow''\<rparr>" None]
    action_of_any_shape_is_stored [of "\<lambda>ks. ks" "JArray [JNumber float64_Inf]"]
    r h v o
  show ?thesis by simp
qed

text \<open>
  The claim C4 as worded fails: decoding a statement whose \<open>"Action"\<close> is the number 5
  succeeds, with the number stored in \<open>Actions\<close>.
\<close>

theorem action_number_is_accepted:
  "Decode (\<lambda>ks. ks) (JObject [(''Statement'', JArray [JObject [(''Action'', JNumber float64_5)]])])
     = Inr \<lparr>Version = [], Id_doc = [], Statements = Some
         [Some \<lparr>Sid = [], Effect = [], Actions = AFloat64 float64_5, NotActions = ANil, Resources = ANil,
                NotResources = ANil, Principals = [], NotPrincipals = [], Conditions = []\<rparr>]\<rparr>"
  by code_simp

lemma map_of_omitemptyString:
  "map_of (omitemptyString name s) k = (if k = name \<and> s \<noteq> [] then Some (JString s) else None)"
  by (simp add: omitemptyString_def)

lemma map_of_omitemptyAny:
  "map_of (omitemptyAny name v) k = (if k = name \<and> v \<noteq> ANil then Some (marshalAny v) else None)"
  by (simp add: omitemptyAny_def)

lemma omitemptyPrincipals_Inr:
  "omitemptyPrincipals name ps = Inr m \<Longrightarrow>
     \<exists>j. m = (if ps = [] then [] else [(name, j)])
       \<and> (ps \<noteq> [] \<longrightarrow> fst (IAMPolicyStatementPrincipalSet_MarshalJSON ps) = Inr j)"
  by (auto simp: omitemptyPrincipals_def split: if_splits sum.splits)

lemma omitemptyConditions_Inr:
  "omitemptyConditions name cs = Inr m \<Longrightarrow>
     \<exists>j. m = (if cs = [] then [] else [(name, j)])
       \<and> (cs \<noteq> [] \<longrightarrow> fst (IAMPolicyStatementConditionSet_MarshalJSON cs) = Inr j)"
  by (auto simp: omitemptyConditions_def split: if_splits sum.splits)

lemma encodeStatement_Inr:
  assumes "encodeStatement s = Inr j"
  shows "\<exists>pm npm cm.
      omitemptyPrincipals ''Principal'' (Principals s) = Inr pm
    \<and> omitemptyPrincipals ''NotPrincipal'' (NotPrincipals s) = Inr npm
    \<and> omitemptyConditions ''Condition'' (Conditions s) = Inr cm
    \<and> j = JObject
            ([(''Sid'', JString (Sid s))]
             @ omitemptyString ''Effect'' (Effect s)
             @ omitemptyAny ''Action'' (Actions s)
             @ omitemptyAny ''NotAction'' (NotActions s)
             @ omitemptyAny ''Resource'' (Resources s)
             @ omitemptyAny ''NotResource'' (NotResources s)
             @ pm @ npm @ cm)"
  using assms by (auto simp: encodeStatement_def split: if_splits sum.splits)

text \<open>
  C8, as the code has it. A statement is written as an object in which \<open>Effect\<close> is
  left out exactly when it is the empty string, \<open>Action\<close>, \<open>NotAction\<close>, \<open>Resource\<close>
  and \<open>NotResource\<close> exactly when the field is nil, \<open>Principal\<close>, \<open>NotPrincipal\<close>
  and \<open>Condition\<close> exactly when the set has no entry; a member that is written carries
  the field's value, so a field holding an empty string or an empty list is written as
  \<open>""\<close> or \<open>[]\<close>. \<open>Sid\<close> carries no \<^verbatim>\<open>omitempty\<close> and is always written. A document
  leaves \<open>Version\<close> and \<open>Id\<close> out exactly when they are empty and always writes
  \<open>Statement\<close>, as \<^verbatim>\<open>null\<close> when the slice is nil.
\<close>

theorem members_written_by_omitempty:
  "(encodeStatement s = Inr j \<longrightarrow>
      (\<exists>ms. j = JObject ms
        \<and> map_of ms ''Sid'' = Some (JString (Sid s))
        \<and> map_of ms ''Effect'' = (if Effect s = [] then None else Some (JString (Effect s)))
        \<and> map_of ms ''Action'' = (if Actions s = ANil then None else Some (marshalAny (Actions s)))
        \<and> map_of ms ''NotAction'' = (if NotActions s = ANil then None else Some (marshalAny (NotActions s)))
        \<and> map_of ms ''Resource'' = (if Resources s = ANil then None else Some (marshalAny (Resources s)))
        \<and> map_of ms ''NotResource'' = (if NotResources s = ANil then None else Some (marshalAny (NotResources s)))
        \<and> (map_of ms ''Principal'' = None) = (Principals s = [])
        \<and> (map_of ms ''NotPrincipal'' = None) = (NotPrincipals s = [])
        \<and> (map_of ms ''Condition'' = None) = (Conditions s = [])))
   \<and> (Encode d = Inr j' \<longrightarrow>
      (\<exists>ms. j' = JObject ms
        \<and> map_of ms ''Version'' = (if Version d = [] then None else Some (JString (Version d)))
        \<and> map_of ms ''Id'' = (if Id_doc d = [] then None else Some (JString (Id_doc d)))
        \<and> map_of ms ''Statement'' \<noteq> None
        \<and> (map_of ms ''Statement'' = Some JNull) = (Statements d = None)))"
proof (intro conjI impI)
  assume enc: "encodeStatement s = Inr j"
  from encodeStatement_Inr [OF enc] obtain pm npm cm where
    pm: "omitemptyPrincipals ''Principal'' (Principals s) = Inr pm"
    and npm: "omitemptyPrincipals ''NotPrincipal'' (NotPrincipals s) = Inr npm"
    and cm: "omitemptyConditions ''Condition'' (Conditions s) = Inr cm"
    and j: "j = JObject
          ([(''Sid'', JString (Sid s))]
           @ omitemptyString ''Effect'' (Effect s)
           @ omitemptyAny ''Action'' (Actions s)
           @ omitemptyAny ''NotAction'' (NotActions s)
           @ omitemptyAny ''Resource'' (Resources s)
           @ omitemptyAny ''NotResource'' (NotResources s)
           @ pm @ npm @ cm)"
    by blast
  from omitemptyPrincipals_Inr [OF pm] obtain jp where
    jp: "pm = (if Principals s = [] then [] else [(''Principal'', jp)])" by blast
  from omitemptyPrincipals_Inr [OF npm] obtain jn where
    jn: "npm = (if NotPrincipals s = [] then [] else [(''NotPrincipal'', jn)])" by blast
  from omitemptyConditions_Inr [OF cm] obtain jc where
    jc: "cm = (if Conditions s = [] then [] else [(''Condition'', jc)])" by blast
  define ms where "ms = [(''Sid'', JString (Sid s))]
           @ omitemptyString ''Effect'' (Effect s)
           @ omitemptyAny ''Action'' (Actions s)
           @ omitemptyAny ''NotAction'' (NotActions s)
           @ omitemptyAny ''Resource'' (Resources s)
           @ omitemptyAny ''NotResource'' (NotResources s)
           @ pm @ npm @ cm"
  note lookup = ms_def jp jn jc map_of_append map_add_def map_of_omitemptyString map_of_omitemptyAny
  have f0: "j = JObject ms" by (simp add: j ms_def)
  have f1: "map_of ms ''Sid'' = Some (JString (Sid s))"
    by (simp add: lookup)
  have f2: "map_of ms ''Effect'' = (if Effect s = [] then None else Some (JString (Effect s)))"
    by (simp add: lookup)
  have f3: "map_of ms ''Action'' = (if Actions s = ANil then None else Some (marshalAny (Actions s)))"
    by (simp add: lookup)
  have f4: "map_of ms ''NotAction'' = (if NotActions s = ANil then None else Some (marshalAny (NotActions s)))"
    by (simp add: lookup)
  have f5: "map_of ms ''Resource'' = (if Resources s = ANil then None else Some (marshalAny (Resources s)))"
    by (simp add: lookup)
  have f6: "map_of ms ''NotResource'' = (if NotResources s = ANil then None else Some (marshalAny (NotResources s)))"
    by (simp add: lookup)
  have f7: "(map_of ms ''Principal'' = None) = (Principals s = [])"
    by (simp add: lookup)
  have f8: "(map_of ms ''NotPrincipal'' = None) = (NotPrincipals s = [])"
    by (simp add: lookup)
  have f9: "(map_of ms ''Condition'' = None) = (Conditions s = [])"
    by (simp add: lookup)
  show "\<exists>ms. j = JObject ms
        \<and> map_of ms ''Sid'' = Some (JString (Sid s))
        \<and> map_of ms ''Effect'' = (if Effect s = [] then None else Some (JString (Effect s)))
        \<and> map_of ms ''Action'' = (if Actions s = ANil then None else Some (marshalAny (Actions s)))
        \<and> map_of ms ''NotAction'' = (if NotActions s = ANil then None else Some (marshalAny (NotActions s)))
        \<and> map_of ms ''Resource'' = (if Resources s = ANil then None else Some (marshalAny (Resources s)))
        \<and> map_of ms ''NotResource'' = (if NotResources s = ANil then None else Some (marshalAny (NotResources s)))
        \<and> (map_of ms ''Principal'' = None) = (Principals s = [])
        \<and> (map_of ms ''NotPrincipal'' = None) = (NotPrincipals s = [])
        \<and> (map_of ms ''Condition'' = None) = (Conditions s = [])"
    apply (rule exI [of _ ms])
    apply (intro conjI)
    apply (rule f0 f1 f2 f3 f4 f5 f6 f7 f8 f9)+
    done
next
  assume enc: "Encode d = Inr j'"
  from enc obtain sv where sv: "j' = JObject
          (omitemptyString ''Version'' (Version d)
           @ omitemptyString ''Id'' (Id_doc d)
           @ [(''Statement'', sv)])"
    and null: "(sv = JNull) = (Statements d = None)"
    by (auto simp: Encode_def split: option.splits sum.splits)
  define ms where "ms = omitemptyString ''Version'' (Version d)
           @ omitemptyString ''Id'' (Id_doc d) @ [(''Statement'', sv)]"
  note lookup = ms_def map_of_append map_add_def map_of_omitemptyString
  have g0: "j' = JObject ms" by (simp add: sv ms_def)
  have g1: "map_of ms ''Version'' = (if Version d = [] then None else Some (JString (Version d)))"
    by (simp add: lookup)
  have g2: "map_of ms ''Id'' = (if Id_doc d = [] then None else Some (JString (Id_doc d)))"
    by (simp add: lookup)
  have g3: "map_of ms ''Statement'' \<noteq> None"
    by (simp add: lookup)
  have g4: "(map_of ms ''Statement'' = Some JNull) = (Statements d = None)"
    by (simp add: lookup null)
  show "\<exists>ms. j' = JObject ms
        \<and> map_of ms ''Version'' = (if Version d = [] then None else Some (JString (Version d)))
        \<and> map_of ms ''Id'' = (if Id_doc d = [] then None else Some (JString (Id_doc d)))
        \<and> map_of ms ''Statement'' \<noteq> None
        \<and> (map_of ms ''Statement'' = Some JNull) = (Statements d = None)"
    apply (rule exI [of _ ms])
    apply (intro conjI)
    apply (rule g0 g1 g2 g3 g4)+
    done
qed

theorem members_written_by_omitempty_witness:
  "encodeStatement (zeroStatement\<lparr>Effect := ''Allow'', Actions := AStrings [],
       Principals := [\<lparr>Type = ''AWS'', Identifiers = AString ''*''\<rparr>]\<rparr>)
     = Inr (JObject [(''Sid'', JString []), (''Effect'', JString ''Allow''), (''Action'', JArray []),
                     (''Principal'', JString ''*'')])
   \<and> Encode \<lparr>Version = ''2012-10-17'', Id_doc = [], Statements = None\<rparr>
     = Inr (JObject [(''Version'', JString ''2012-10-17''), (''Statement'', JNull)])
   \<and> (\<exists>ms. JObject [(''Sid'', JString []), (''Effect'', JString ''Allow''), (''Action'', JArray []),
                     (''Principal'', JString ''*'')] = JObject ms
        \<and> map_of ms ''Sid'' = Some (JString [])
        \<and> map_of ms ''Action'' = Some (JArray [])
        \<and> map_of ms ''NotAction'' = None
        \<and> map_of ms ''Condition'' = None)
   \<and> (\<exists>ms. JObject [(''Version'', JString ''2012-10-17''), (''Statement'', JNull)] = JObject ms
        \<and> map_of ms ''Id'' = None
        \<and> map_of ms ''Statement'' = Some JNull)"
proof -
  let ?s = "zeroStatement\<lparr>Effect := ''Allow'', Actions := AStrings [],
       Principals := [\<lparr>Type = ''AWS'', Identifiers = AString ''*''\<rparr>]\<rparr>"
  let ?d = "\<lparr>Version = ''2012-10-17'', Id_doc = [], Statements = None\<rparr>"
  let ?j = "JObject [(''Sid'', JString []), (''Effect'', JString ''Allow''), (''Action'', JArray []),
                     (''Principal'', JString ''*'')]"
  let ?j' = "JObject [(''Version'', JString ''2012-10-17''), (''Statement'', JNull)]"
  have h: "encodeStatement ?s = Inr ?j" by code_simp
  have h': "Encode ?d = Inr ?j'" by code_simp
  have f: "Sid ?s = []" "Actions ?s = AStrings []" "NotActions ?s = ANil" "Conditions ?s = []"
    "Id_doc ?d = []" "Statements ?d = None"
    by (simp_all add: zeroStatement_def)
  from members_written_by_omitempty [of ?s ?j ?d ?j'] h h'
  show ?thesis
    unfolding f by (simp del: map_of.simps)
qed

text \<open>
  The claim C8 as worded fails: a statement with an empty sid is written with the member
  \<open>"Sid":""\<close>, an \<open>Action\<close> holding an empty list as \<open>"Action":[]\<close>, and a document
  without statements with \<open>"Statement":null\<close>.
\<close>

theorem empty_sid_is_written:
  "encodeStatement \<lparr>Sid = [], Effect = [], Actions = AStrings [], NotActions = ANil, Resources = ANil,
        NotResources = ANil, Principals = [], NotPrincipals = [], Conditions = []\<rparr>
     = Inr (JObject [(''Sid'', JString []), (''Action'', JArray [])])
   \<and> Encode \<lparr>Version = [], Id_doc = [], Statements = None\<rparr>
     = Inr (JObject [(''Statement'', JNull)])"
  by code_simp

section \<open>Reading back what was written\<close>

subsection \<open>Maps in key order\<close>

lemma mapSet_largest:
  "\<forall>k'\<in>fst ` set m. k' < k \<Longrightarrow> mapSet k v m = m @ [(k, v)]"
  by (induction m) auto

lemma mapOfMembers_sorted_acc:
  "sorted_wrt (<) (map fst (acc @ xs)) \<Longrightarrow> mapOfMembers acc xs = acc @ xs"
proof (induction xs arbitrary: acc)
  case Nil
  then show ?case by simp
next
  case (Cons kv xs)
  obtain k v where kv: "kv = (k, v)" by (cases kv)
  from Cons.prems kv have "\<forall>k'\<in>fst ` set acc. k' < k"
    by (auto simp: sorted_wrt_append)
  then have "mapSet k v acc = acc @ [(k, v)]" by (rule mapSet_largest)
  moreover from Cons.prems kv have "sorted_wrt (<) (map fst ((acc @ [(k, v)]) @ xs))" by simp
  ultimately show ?case using Cons.IH [of "acc @ [(k, v)]"] kv by simp
qed

lemma mapOfMembers_sorted: "sorted_wrt (<) (map fst xs) \<Longrightarrow> mapOfMembers [] xs = xs"
  using mapOfMembers_sorted_acc [of "[]" xs] by simp

lemma map_of_mapSet: "map_of (mapSet k v m) = (map_of m)(k \<mapsto> v)"
  using mapGet_mapSet [of k v m] by (auto simp: mapGet_def fun_eq_iff)

lemma map_of_mapOfMembers: "map_of (mapOfMembers m kvs) = map_of m ++ map_of (rev kvs)"
proof (induction kvs arbitrary: m)
  case Nil
  then show ?case by simp
next
  case (Cons kv kvs)
  obtain k v where kv: "kv = (k, v)" by (cases kv)
  show ?case
    by (simp add: kv Cons.IH map_of_mapSet map_of_append map_add_upd_left fun_eq_iff map_add_def
        split: option.splits)
qed

lemma sorted_mapOfMembers:
  "sorted_wrt (<) (map fst m) \<Longrightarrow> sorted_wrt (<) (map fst (mapOfMembers m kvs))"
  by (induction kvs arbitrary: m) (auto simp: sorted_mapSet)

lemma keys_mapOfMembers: "fst ` set (mapOfMembers m kvs) = fst ` set m \<union> fst ` set kvs"
proof (induction kvs arbitrary: m)
  case Nil
  then show ?case by simp
next
  case (Cons kv kvs)
  obtain k v where kv: "kv = (k, v)" by (cases kv)
  have "fst ` set (mapOfMembers (mapSet k v m) kvs) = fst ` set (mapSet k v m) \<union> fst ` set kvs"
    by (rule Cons.IH)
  then show ?case by (simp add: kv keys_mapSet)
qed

lemma list_all_mapOfMembers:
  "list_all Q m \<Longrightarrow> list_all Q kvs \<Longrightarrow> list_all Q (mapOfMembers m kvs)"
  by (induction kvs arbitrary: m) (auto simp: list_all_mapSet)

lemma snd_by_map_of:
  "distinct (map fst a) \<Longrightarrow> map (\<lambda>k. the (map_of a k)) (map fst a) = map snd a"
proof (induction a)
  case Nil
  then show ?case by simp
next
  case (Cons x a)
  then have "map (\<lambda>k. the (map_of (x # a) k)) (map fst a) = map (\<lambda>k. the (map_of a k)) (map fst a)"
    by (cases x) (auto simp: image_iff)
  with Cons show ?case by (cases x) simp
qed

lemma sorted_assoc_ext:
  fixes a b :: "(string \<times> 'v) list"
  assumes "sorted_wrt (<) (map fst a)" and "sorted_wrt (<) (map fst b)" and "map_of a = map_of b"
  shows "a = b"
proof -
  from assms(1,2) have da: "distinct (map fst a)" and db: "distinct (map fst b)"
    and sa: "sorted (map fst a)" and sb: "sorted (map fst b)"
    by (simp_all add: strict_sorted_iff)
  from assms(3) have "dom (map_of a) = dom (map_of b)" by simp
  then have "set (map fst a) = set (map fst b)" by (simp add: dom_map_of_conv_image_fst)
  with sa sb da db have keys: "map fst a = map fst b"
    by (blast intro: sorted_distinct_set_unique)
  have "map snd a = map (\<lambda>k. the (map_of a k)) (map fst a)"
    using snd_by_map_of [OF da] by simp
  also have "\<dots> = map (\<lambda>k. the (map_of b k)) (map fst b)"
    by (simp add: keys assms(3))
  also have "\<dots> = map snd b" using snd_by_map_of [OF db] by simp
  finally have "map snd a = map snd b" .
  with keys show ?thesis by (metis zip_map_fst_snd)
qed

lemma keys_rangeMap:
  assumes "isRangeOrder rng"
  shows "map fst (rangeMap rng m) = rng (map fst m)"
proof -
  from assms have "mset (rng (map fst m)) = mset (map fst m)"
    by (simp add: isRangeOrder_def)
  then have "set (rng (map fst m)) = fst ` set m"
    by (metis set_mset_mset list.set_map)
  then have "\<forall>k\<in>set (rng (map fst m)). mapGet m k \<noteq> None"
    by (simp add: mapGet_None_iff)
  then have "map fst (concat (map (\<lambda>k. case mapGet m k of None \<Rightarrow> [] | Some v \<Rightarrow> [(k, v)]) ks)) = ks"
    if "set ks \<subseteq> set (rng (map fst m))" for ks
    using that by (induction ks) (auto split: option.splits)
  then show ?thesis by (simp add: rangeMap_def)
qed

lemma distinct_rangeMap:
  assumes "isRangeOrder rng" and "distinct (map fst m)"
  shows "distinct (map fst (rangeMap rng m))"
proof -
  from assms(1) have "mset (rng (map fst m)) = mset (map fst m)"
    by (simp add: isRangeOrder_def)
  with assms(2) have "distinct (rng (map fst m))"
    by (metis mset_eq_imp_distinct_iff)
  then show ?thesis by (simp add: keys_rangeMap [OF assms(1)])
qed

lemma map_of_rangeMap:
  assumes "isRangeOrder rng" and "distinct (map fst m)"
  shows "map_of (rangeMap rng m) = map_of m" "map_of (rev (rangeMap rng m)) = map_of m"
proof -
  have d: "distinct (map fst (rangeMap rng m))" by (rule distinct_rangeMap [OF assms])
  have s: "set (rangeMap rng m) = set m"
    using set_rangeMap [OF assms(1), of m] assms(2) by (auto simp: mapGet_def)
  from d s assms(2) show "map_of (rangeMap rng m) = map_of m"
    by (simp add: map_of_inject_set)
  from d have "distinct (map fst (rev (rangeMap rng m)))" by (simp add: rev_map [symmetric])
  with s assms(2) show "map_of (rev (rangeMap rng m)) = map_of m"
    by (simp add: map_of_inject_set)
qed

subsection \<open>Interface values\<close>

lemma sortedJSON_marshalAny: "wfAny a \<Longrightarrow> sortedJSON (marshalAny a)"
proof (induction a)
  case (ASlice l)
  then show ?case by (auto simp: list_all_iff)
next
  case (AMap m)
  have keys: "map fst (map (\<lambda>(k, v). (k, marshalAny v)) m) = map fst m"
    by (simp add: split_beta)
  from AMap.prems have "sorted_wrt (<) (map fst m)" by simp
  then have s: "sorted_wrt (<) (map fst (map (\<lambda>(k, v). (k, marshalAny v)) m))"
    by (simp only: keys)
  have "sortedJSON (marshalAny v)" if "(k, v) \<in> set m" for k v
  proof -
    from that AMap.prems have "wfAny v" by (auto simp: list_all_iff)
    with AMap.IH [of "(k, v)" v] that show ?thesis by simp
  qed
  then have "list_all (\<lambda>kv. sortedJSON (snd kv)) (map (\<lambda>(k, v). (k, marshalAny v)) m)"
    by (auto simp: list_all_iff)
  with s show ?case by simp
qed (auto simp: list_all_iff)

lemma outOfRange_marshalAny: "outOfRange (marshalAny a) = unsupportedValue a"
proof (induction a)
  case (ASlice l)
  then show ?case by (auto simp: list_ex_iff)
next
  case (AMap m)
  have "outOfRange (marshalAny (snd kv)) = unsupportedValue (snd kv)" if "kv \<in> set m" for kv
    using AMap.IH [of kv "snd kv"] that by (cases kv) simp
  then show ?case by (simp add: list_ex_iff split_beta)
qed (auto simp: list_ex_iff)

lemma supported_unmarshalAny: "\<not> unsupportedValue (unmarshalAny j)"
proof (induction j)
  case (JArray js)
  then show ?case by (auto simp: list_ex_iff)
next
  case (JObject kvs)
  have "\<not> unsupportedValue (unmarshalAny v)" if "(k, v) \<in> set kvs" for k v
    using JObject.IH [of "(k, v)" v] that by simp
  then have "list_all (\<lambda>kv. \<not> unsupportedValue (snd kv)) (map (\<lambda>(k, v). (k, unmarshalAny v)) kvs)"
    by (auto simp: list_all_iff)
  then have "list_all (\<lambda>kv. \<not> unsupportedValue (snd kv))
      (mapOfMembers [] (map (\<lambda>(k, v). (k, unmarshalAny v)) kvs))"
    by (intro list_all_mapOfMembers) simp_all
  then show ?case by (auto simp: list_all_iff list_ex_iff)
qed auto

lemma marshal_unmarshal: "sortedJSON j \<Longrightarrow> \<not> outOfRange j \<Longrightarrow> marshalAny (unmarshalAny j) = j"
proof (induction j)
  case (JArray js)
  then show ?case by (auto simp: list_all_iff list_ex_iff map_idI)
next
  case (JObject kvs)
  have keys: "map fst (map (\<lambda>(k, v). (k, unmarshalAny v)) kvs) = map fst kvs"
    by (simp add: split_beta)
  from JObject.prems have "sorted_wrt (<) (map fst kvs)" by simp
  then have "sorted_wrt (<) (map fst (map (\<lambda>(k, v). (k, unmarshalAny v)) kvs))"
    by (simp only: keys)
  then have m: "mapOfMembers [] (map (\<lambda>(k, v). (k, unmarshalAny v)) kvs)
      = map (\<lambda>(k, v). (k, unmarshalAny v)) kvs"
    by (rule mapOfMembers_sorted)
  have "marshalAny (unmarshalAny v) = v" if "(k, v) \<in> set kvs" for k v
  proof -
    from that JObject.prems have "sortedJSON v" "\<not> outOfRange v"
      by (auto simp: list_all_iff list_ex_iff)
    with JObject.IH [of "(k, v)" v] that show ?thesis by simp
  qed
  then have "map (\<lambda>(k, v). (k, marshalAny v)) (map (\<lambda>(k, v). (k, unmarshalAny v)) kvs) = kvs"
    by (auto intro!: map_idI)
  with m show ?case by simp
qed auto

lemma reread_any:
  "wfAny a \<Longrightarrow> \<not> unsupportedValue a \<Longrightarrow> marshalAny (unmarshalAny (marshalAny a)) = marshalAny a"
  by (simp add: marshal_unmarshal sortedJSON_marshalAny outOfRange_marshalAny)

lemma marshalAny_JNull: "marshalAny a = JNull \<longleftrightarrow> a = ANil"
  by (cases a) auto

lemma unmarshalAny_ANil: "\<not> outOfRange j \<Longrightarrow> unmarshalAny j = ANil \<longleftrightarrow> j = JNull"
  by (cases j) auto

subsection \<open>Principal sets\<close>

lemma principalLoop_strings:
  "list_all (\<lambda>p. holdsString (Identifiers p)) ps \<Longrightarrow>
     fst (principalLoop raw ps) = Inr (mapOfMembers raw (map (\<lambda>p. (Type p, Identifiers p)) ps))"
proof (induction ps arbitrary: raw)
  case Nil
  then show ?case by simp
next
  case (Cons p ps)
  from Cons.prems obtain i where i: "Identifiers p = AString i"
    by (cases "Identifiers p") auto
  with Cons show ?case by (simp add: split_beta)
qed

lemma principalLoop_keys:
  "fst (principalLoop raw ps) = Inr raw' \<Longrightarrow> fst ` set raw' = fst ` set raw \<union> Type ` set ps"
proof (induction ps arbitrary: raw)
  case Nil
  then show ?case by simp
next
  case (Cons p ps)
  show ?case
  proof (cases "Identifiers p")
    case (AString i)
    with Cons.prems have "fst (principalLoop (mapSet (Type p) (AString i) raw) ps) = Inr raw'"
      by (simp add: split_beta)
    from Cons.IH [OF this] show ?thesis by (simp add: keys_mapSet)
  next
    case (AStrings i)
    define raw1 where "raw1 = (if mapGet raw (Type p) = None then mapSet (Type p) (AStrings []) raw else raw)"
    have k1: "fst ` set raw1 = insert (Type p) (fst ` set raw)"
      by (auto simp: raw1_def keys_mapSet mapGet_None_iff)
    from Cons.prems AStrings obtain old where
      "fst (principalLoop (mapSet (Type p) (AStrings (old @ sortDesc i)) raw1) ps) = Inr raw'"
      by (auto simp: raw1_def [symmetric] Let_def split_beta split: option.splits any.splits)
    from Cons.IH [OF this] show ?thesis by (simp add: keys_mapSet k1)
  qed (use Cons.prems in simp_all)
qed

lemma principalLoop_values:
  "fst (principalLoop raw ps) = Inr raw' \<Longrightarrow>
   list_all (\<lambda>kv. holdsString (snd kv) \<or> holdsStrings (snd kv)) raw \<Longrightarrow>
   list_all (\<lambda>kv. holdsString (snd kv) \<or> holdsStrings (snd kv)) raw'"
proof (induction ps arbitrary: raw)
  case Nil
  then show ?case by simp
next
  case (Cons p ps)
  show ?case
  proof (cases "Identifiers p")
    case (AString i)
    with Cons.prems have "fst (principalLoop (mapSet (Type p) (AString i) raw) ps) = Inr raw'"
      by (simp add: split_beta)
    moreover have "list_all (\<lambda>kv. holdsString (snd kv) \<or> holdsStrings (snd kv)) (mapSet (Type p) (AString i) raw)"
      using Cons.prems(2) by (simp add: list_all_mapSet)
    ultimately show ?thesis by (rule Cons.IH)
  next
    case (AStrings i)
    define raw1 where "raw1 = (if mapGet raw (Type p) = None then mapSet (Type p) (AStrings []) raw else raw)"
    have v1: "list_all (\<lambda>kv. holdsString (snd kv) \<or> holdsStrings (snd kv)) raw1"
      using Cons.prems(2) by (simp add: raw1_def list_all_mapSet)
    from Cons.prems AStrings obtain old where
      "fst (principalLoop (mapSet (Type p) (AStrings (old @ sortDesc i)) raw1) ps) = Inr raw'"
      by (auto simp: raw1_def [symmetric] Let_def split_beta split: option.splits any.splits)
    moreover have "list_all (\<lambda>kv. holdsString (snd kv) \<or> holdsStrings (snd kv))
        (mapSet (Type p) (AStrings (old @ sortDesc i)) raw1)"
      using v1 by (simp add: list_all_mapSet)
    ultimately show ?thesis by (rule Cons.IH)
  qed (use Cons.prems in simp_all)
qed

lemma length_rangeMap:
  assumes "isRangeOrder rng"
  shows "length (rangeMap rng m) = length m"
proof -
  have "length (rangeMap rng m) = length (map fst (rangeMap rng m))" by simp
  also have "\<dots> = length (rng (map fst m))" by (simp only: keys_rangeMap [OF assms])
  also have "\<dots> = length (map fst m)"
    using assms by (metis isRangeOrder_def size_mset)
  finally show ?thesis by simp
qed

lemma unmarshal_string_map:
  assumes "sorted_wrt (<) (map fst raw)" and "list_all (\<lambda>kv. holdsString (snd kv)) raw"
  shows "unmarshalAny (marshalAny (AMap raw)) = AMap raw"
proof -
  have "unmarshalAny (marshalAny v) = v" if "(k, v) \<in> set raw" for k v
  proof -
    from that assms(2) have "holdsString v" by (auto simp: list_all_iff)
    then show ?thesis by (cases v) auto
  qed
  then have "map (\<lambda>(k, v). (k, unmarshalAny v)) (map (\<lambda>(k, v). (k, marshalAny v)) raw) = raw"
    by (auto intro!: map_idI)
  with assms(1) show ?thesis by (simp add: mapOfMembers_sorted)
qed

lemma strings_in_range:
  assumes "list_all (\<lambda>kv. holdsString (snd kv) \<or> holdsStrings (snd kv)) raw"
  shows "\<not> outOfRange (marshalAny (AMap raw))"
proof -
  have "\<not> unsupportedValue (snd kv)" if "kv \<in> set raw" for kv
  proof -
    from that assms have "holdsString (snd kv) \<or> holdsStrings (snd kv)" by (auto simp: list_all_iff)
    then show ?thesis by (cases "snd kv") auto
  qed
  then have "\<not> unsupportedValue (AMap raw)" by (simp add: list_ex_iff)
  then show ?thesis unfolding outOfRange_marshalAny .
qed

text \<open>
  What the principal encoder has written, the principal decoder reads without error,
  and the set it returns is not empty.
\<close>

lemma principals_read_back:
  assumes "ps \<noteq> []" and "fst (IAMPolicyStatementPrincipalSet_MarshalJSON ps) = Inr jp"
    and rng: "isRangeOrder rng"
  shows "\<exists>ps'. IAMPolicyStatementPrincipalSet_UnmarshalJSON rng jp = Inr ps' \<and> ps' \<noteq> []"
proof (cases "length ps = 1 \<and> isWildcardPrincipal (hd ps)")
  case True
  with assms(2) have "jp = JString ''*''"
    by (simp add: fst_PrincipalSet_MarshalJSON del: One_nat_def)
  then show ?thesis by (simp add: IAMPolicyStatementPrincipalSet_UnmarshalJSON_def)
next
  case False
  with assms(2) obtain raw where raw: "fst (principalLoop [] ps) = Inr raw"
    and jp: "jp = marshalAny (AMap raw)"
    by (auto simp: fst_PrincipalSet_MarshalJSON split: sum.splits simp del: One_nat_def)
  from principalLoop_keys [OF raw] assms(1) have "raw \<noteq> []" by auto
  from principalLoop_values [OF raw] have inr: "\<not> outOfRange jp"
    unfolding jp by (intro strings_in_range) simp
  define data where "data = mapOfMembers [] (map (\<lambda>(k, v). (k, unmarshalAny v)) (map (\<lambda>(k, v). (k, marshalAny v)) raw))"
  have "fst ` set data = fst ` set raw"
    by (simp add: data_def keys_mapOfMembers image_image split_beta)
  with \<open>raw \<noteq> []\<close> have "data \<noteq> []" by auto
  then have "rangeMap rng data \<noteq> []"
    using length_rangeMap [OF rng, of data] by (metis length_0_conv)
  with inr show ?thesis
    by (simp add: IAMPolicyStatementPrincipalSet_UnmarshalJSON_def jp data_def)
qed

text \<open>For a stable set the decoded set is written as the first one was.\<close>

lemma principals_written_again:
  assumes "ps \<noteq> []" and "fst (IAMPolicyStatementPrincipalSet_MarshalJSON ps) = Inr jp"
    and rng: "isRangeOrder rng" and stable: "stablePrincipals ps"
    and dec: "IAMPolicyStatementPrincipalSet_UnmarshalJSON rng jp = Inr ps'"
  shows "fst (IAMPolicyStatementPrincipalSet_MarshalJSON ps') = Inr jp"
proof (cases "length ps = 1 \<and> isWildcardPrincipal (hd ps)")
  case True
  with assms(2) have "jp = JString ''*''"
    by (simp add: fst_PrincipalSet_MarshalJSON del: One_nat_def)
  with dec have "ps' = [\<lparr>Type = ''*'', Identifiers = AStrings [''*'']\<rparr>]"
    by (simp add: IAMPolicyStatementPrincipalSet_UnmarshalJSON_def)
  then show ?thesis
    using \<open>jp = JString ''*''\<close> by (simp add: fst_PrincipalSet_MarshalJSON isWildcardPrincipal_def)
next
  case False
  with stable assms(1) have strs: "list_all (\<lambda>p. holdsString (Identifiers p)) ps"
    and dist: "distinct (map Type ps)"
    by (auto simp: stablePrincipals_def)
  let ?kvs = "map (\<lambda>p. (Type p, Identifiers p)) ps"
  define raw where "raw = mapOfMembers [] ?kvs"
  have loop: "fst (principalLoop [] ps) = Inr raw"
    using principalLoop_strings [OF strs] by (simp add: raw_def)
  have jp: "jp = marshalAny (AMap raw)"
    using assms(2) unfolding fst_PrincipalSet_MarshalJSON if_not_P [OF False]
    by (simp add: loop)
  have sorted: "sorted_wrt (<) (map fst raw)"
    by (simp add: raw_def sorted_mapOfMembers)
  then have draw: "distinct (map fst raw)" by (simp add: strict_sorted_iff)
  have dkvs: "distinct (map fst ?kvs)" using dist by (simp add: comp_def)
  then have "distinct (map fst (rev ?kvs))" by (simp add: rev_map [symmetric])
  then have "map_of (rev ?kvs) = map_of ?kvs"
    using dkvs by (simp add: map_of_inject_set)
  then have mraw: "map_of raw = map_of ?kvs"
    by (simp add: raw_def map_of_mapOfMembers)
  have vals: "list_all (\<lambda>kv. holdsString (snd kv)) raw"
    unfolding raw_def using strs
    by (intro list_all_mapOfMembers) (auto simp: list_all_iff)
  have data: "unmarshalAny jp = AMap raw"
    unfolding jp by (rule unmarshal_string_map [OF sorted vals])
  have inr: "\<not> outOfRange jp"
    unfolding jp using vals by (intro strings_in_range) (auto simp: list_all_iff)
  with data dec have ps': "ps' = map (\<lambda>(key, value). \<lparr>Type = key, Identifiers = value\<rparr>) (rangeMap rng raw)"
    by (simp add: IAMPolicyStatementPrincipalSet_UnmarshalJSON_def)
  have kvs': "map (\<lambda>p. (Type p, Identifiers p)) ps' = rangeMap rng raw"
    unfolding ps' by (auto intro!: map_idI)
  have strs': "list_all (\<lambda>p. holdsString (Identifiers p)) ps'"
    using vals rangeMap_subset [OF rng, of raw]
    by (fastforce simp: ps' list_all_iff)
  have "fst (principalLoop [] ps') = Inr (mapOfMembers [] (rangeMap rng raw))"
    using principalLoop_strings [OF strs', of "[]"] by (simp only: kvs')
  moreover have "mapOfMembers [] (rangeMap rng raw) = raw"
  proof (rule sorted_assoc_ext)
    show "sorted_wrt (<) (map fst (mapOfMembers [] (rangeMap rng raw)))"
      by (simp add: sorted_mapOfMembers)
    show "sorted_wrt (<) (map fst raw)" by (rule sorted)
    show "map_of (mapOfMembers [] (rangeMap rng raw)) = map_of raw"
      by (simp add: map_of_mapOfMembers map_of_rangeMap(2) [OF rng draw])
  qed
  ultimately have loop': "fst (principalLoop [] ps') = Inr raw" by simp
  have general': "\<not> (length ps' = 1 \<and> isWildcardPrincipal (hd ps'))"
  proof
    assume w: "length ps' = 1 \<and> isWildcardPrincipal (hd ps')"
    then have "length raw = 1"
      using length_rangeMap [OF rng, of raw] by (simp add: ps')
    then obtain T v where one: "raw = [(T, v)]"
      by (cases raw) (auto simp: length_Suc_conv)
    have "rangeMap rng raw = [(T, v)]"
    proof -
      have "set (rangeMap rng raw) = {(T, v)}"
        using set_rangeMap [OF rng, of raw] by (auto simp: one mapGet_def split: if_splits)
      moreover have "length (rangeMap rng raw) = 1"
        using length_rangeMap [OF rng, of raw] by (simp add: one)
      ultimately show ?thesis
        by (cases "rangeMap rng raw") (auto simp: length_Suc_conv)
    qed
    with w have Tv: "(T = ''AWS'' \<or> T = ''*'') \<and> (v = AString ''*'' \<or> v = AStrings [''*''])"
      by (simp add: ps' isWildcardPrincipal_def)
    have "Type ` set ps = {T}"
      using principalLoop_keys [OF loop] by (simp add: one)
    have types: "Type ` set ps = {T}" by fact
    obtain p rest where cons: "ps = p # rest" using assms(1) by (cases ps) auto
    have "rest = []"
    proof (rule ccontr)
      assume "rest \<noteq> []"
      then obtain q where q: "q \<in> set rest" by (cases rest) auto
      with types cons have "Type q = T" "Type p = T" by auto
      with q have "Type p \<in> Type ` set rest" by force
      with dist cons show False by simp
    qed
    with cons types have p: "ps = [p]" "Type p = T" by auto
    have "map_of raw T = Some (Identifiers p)" by (simp add: mraw p)
    then have "v = Identifiers p" by (simp add: one)
    with Tv p have "length ps = 1 \<and> isWildcardPrincipal (hd ps)"
      by (simp add: isWildcardPrincipal_def)
    with False show False by contradiction
  qed
  show ?thesis
    unfolding fst_PrincipalSet_MarshalJSON if_not_P [OF general']
    by (simp add: loop' jp)
qed

subsection \<open>Two-level maps\<close>

lemma mapSet_not_empty: "mapSet k v m \<noteq> []"
  by (cases m) (auto split: if_splits)

lemma mapGet_Nil: "mapGet [] k = None"
  by (simp add: mapGet_def)

lemma wf2_update:
  assumes "wf2 raw" and "sorted_wrt (<) (map fst inner)"
  shows "wf2 (mapSet t (mapSet v x inner) raw)"
proof -
  have "sorted_wrt (<) (map fst (mapSet v x inner)) \<and> mapSet v x inner \<noteq> []"
    using assms(2) by (simp add: sorted_mapSet mapSet_not_empty)
  then have "list_all (\<lambda>tv. sorted_wrt (<) (map fst (snd tv)) \<and> snd tv \<noteq> [])
      (mapSet t (mapSet v x inner) raw)"
    using assms(1) by (intro list_all_mapSet) (simp_all add: wf2_def)
  with assms(1) show ?thesis by (simp add: wf2_def sorted_mapSet)
qed

lemma wf2_inner:
  assumes "wf2 raw" and "mapGet raw t = Some inner"
  shows "sorted_wrt (<) (map fst inner)" "inner \<noteq> []"
proof -
  from assms(2) have "(t, inner) \<in> set raw" by (simp add: mapGet_def map_of_SomeD)
  with assms(1) show "sorted_wrt (<) (map fst inner)" "inner \<noteq> []"
    by (auto simp: wf2_def list_all_iff)
qed

lemma lookup2_update:
  "lookup2 (mapSet t (mapSet v x (case mapGet raw t of None \<Rightarrow> [] | Some m \<Rightarrow> m)) raw) t' v'
     = (if t' = t \<and> v' = v then Some x else lookup2 raw t' v')"
  by (simp add: lookup2_def mapGet_mapSet mapGet_Nil split: option.splits)

lemma wf2_ext:
  fixes a b :: "(string \<times> (string \<times> 'v) list) list"
  assumes a: "wf2 a" and b: "wf2 b" and same: "\<And>t v. lookup2 a t v = lookup2 b t v"
  shows "a = b"
proof (rule sorted_assoc_ext)
  show "sorted_wrt (<) (map fst a)" using a by (simp add: wf2_def)
  show "sorted_wrt (<) (map fst b)" using b by (simp add: wf2_def)
  have half: "map_of y t = Some inner"
    if x: "wf2 x" and y: "wf2 y" and eq: "\<And>t v. lookup2 x t v = lookup2 y t v"
      and at: "map_of x t = Some inner" for x y :: "(string \<times> (string \<times> 'v) list) list" and t inner
  proof -
    from wf2_inner [OF x, of t inner] at
    have si: "sorted_wrt (<) (map fst inner)" and ne: "inner \<noteq> []" by (simp_all add: mapGet_def)
    from ne obtain v w rest where "inner = (v, w) # rest"
      by (cases inner) auto
    then have "map_of inner v = Some w" by simp
    then have "lookup2 x t v = Some w" by (simp add: lookup2_def mapGet_def at)
    then have "lookup2 y t v = Some w" by (simp add: eq)
    then obtain inner' where at': "map_of y t = Some inner'"
      by (auto simp: lookup2_def mapGet_def split: option.splits)
    from wf2_inner [OF y, of t inner'] at'
    have si': "sorted_wrt (<) (map fst inner')" by (simp add: mapGet_def)
    have "map_of inner = map_of inner'"
    proof
      fix u
      have "lookup2 x t u = lookup2 y t u" by (rule eq)
      then show "map_of inner u = map_of inner' u"
        by (simp add: lookup2_def mapGet_def at at')
    qed
    with si si' have "inner = inner'" by (rule sorted_assoc_ext)
    with at' show ?thesis by simp
  qed
  show "map_of a = map_of b"
  proof
    fix t
    show "map_of a t = map_of b t"
    proof (cases "map_of a t")
      case (Some inner)
      from half [OF a b same Some] Some show ?thesis by simp
    next
      case None
      show ?thesis
      proof (cases "map_of b t")
        case (Some inner)
        from half [OF b a same [symmetric] Some] None show ?thesis by simp
      next
        case None': None
        with None show ?thesis by simp
      qed
    qed
  qed
qed

lemma mergedValues_append:
  "mergedValues t v (xs @ ys) = mergedValues t v xs @ mergedValues t v ys"
  by (induction xs) (auto split: any.splits)

lemma mergedValues_absent:
  "(t, v) \<notin> (\<lambda>c. (Test c, Variable c)) ` set cs \<Longrightarrow> mergedValues t v cs = []"
  by (induction cs) (auto split: any.splits)

lemma mergedValues_single:
  assumes "distinct (map (\<lambda>c. (Test c, Variable c)) cs)" and "c \<in> set cs" and "Values c = AStrings l"
  shows "mergedValues (Test c) (Variable c) cs = sortDesc l"
  using assms
proof (induction cs)
  case Nil
  then show ?case by simp
next
  case (Cons x cs)
  show ?case
  proof (cases "x = c")
    case True
    with Cons.prems have "(Test c, Variable c) \<notin> (\<lambda>c. (Test c, Variable c)) ` set cs" by auto
    then have "mergedValues (Test c) (Variable c) cs = []" by (rule mergedValues_absent)
    with True Cons.prems(3) show ?thesis by simp
  next
    case False
    with Cons.prems have c: "c \<in> set cs" and "distinct (map (\<lambda>c. (Test c, Variable c)) cs)"
      and "(Test x, Variable x) \<noteq> (Test c, Variable c)"
      by (auto simp: image_iff)
    with Cons.IH Cons.prems(3) show ?thesis by (auto split: any.splits)
  qed
qed

subsection \<open>The condition encoder on list-valued entries\<close>

lemma inner_of_raw:
  assumes "list_all (\<lambda>tv. list_all Q (snd tv)) raw"
  shows "list_all Q (case mapGet raw t of None \<Rightarrow> [] | Some m \<Rightarrow> m)"
proof (cases "mapGet raw t")
  case None
  then show ?thesis by simp
next
  case (Some inner)
  then have "(t, inner) \<in> set raw" by (simp add: mapGet_def map_of_SomeD)
  with assms Some show ?thesis by (auto simp: list_all_iff)
qed

lemma sorted_inner_of_raw:
  assumes "wf2 raw"
  shows "sorted_wrt (<) (map fst (case mapGet raw t of None \<Rightarrow> [] | Some m \<Rightarrow> m))"
  using wf2_inner(1) [OF assms, of t] by (cases "mapGet raw t") auto

lemma conditionLoop_lists:
  assumes "list_all (\<lambda>c. holdsStrings (Values c)) cs"
    and "wf2 raw"
    and "list_all (\<lambda>tv. list_all (\<lambda>kv. holdsStrings (snd kv)) (snd tv)) raw"
  shows "\<exists>raw'. fst (conditionLoop raw cs) = Inr raw' \<and> wf2 raw'
     \<and> list_all (\<lambda>tv. list_all (\<lambda>kv. holdsStrings (snd kv)) (snd tv)) raw'
     \<and> (\<forall>t v. stringsAt2 raw' t v = stringsAt2 raw t v @ mergedValues t v cs)
     \<and> (\<forall>t v. (lookup2 raw' t v \<noteq> None)
           = (lookup2 raw t v \<noteq> None \<or> (t, v) \<in> (\<lambda>c. (Test c, Variable c)) ` set cs))"
  using assms
proof (induction cs arbitrary: raw)
  case Nil
  then show ?case by simp
next
  case (Cons c cs)
  let ?T = "Test c" and ?V = "Variable c"
  from Cons.prems(1) obtain i where i: "Values c = AStrings i"
    by (cases "Values c") auto
  define inner where "inner = (case mapGet raw ?T of None \<Rightarrow> [] | Some m \<Rightarrow> m)"
  define inner1 where "inner1 = (if mapGet inner ?V = None then mapSet ?V (AStrings []) inner else inner)"
  have inner_lists: "list_all (\<lambda>kv. holdsStrings (snd kv)) inner"
    unfolding inner_def by (rule inner_of_raw [OF Cons.prems(3)])
  have inner_sorted: "sorted_wrt (<) (map fst inner)"
    unfolding inner_def by (rule sorted_inner_of_raw [OF Cons.prems(2)])
  have inner1_lists: "list_all (\<lambda>kv. holdsStrings (snd kv)) inner1"
    using inner_lists by (simp add: inner1_def list_all_mapSet)
  have inner1_sorted: "sorted_wrt (<) (map fst inner1)"
    using inner_sorted by (simp add: inner1_def sorted_mapSet)
  have inner1_get: "mapGet inner1 u = (if u = ?V \<and> mapGet inner ?V = None then Some (AStrings []) else mapGet inner u)" for u
    by (auto simp: inner1_def mapGet_mapSet)
  have "mapGet inner1 ?V \<noteq> None" by (simp add: inner1_get)
  then obtain x where x: "mapGet inner1 ?V = Some x" by auto
  then have "(?V, x) \<in> set inner1" by (simp add: mapGet_def map_of_SomeD)
  with inner1_lists have "holdsStrings x" by (auto simp: list_all_iff)
  then obtain old where old: "x = AStrings old" by (cases x) auto
  have inner_at: "mapGet inner u = lookup2 raw ?T u" for u
    by (simp add: inner_def lookup2_def mapGet_Nil split: option.splits)
  have old_is: "old = stringsAt2 raw ?T ?V"
    using x old inner1_get [of ?V]
    by (auto simp: stringsAt2_def inner_at split: if_splits)
  define raw2 where "raw2 = mapSet ?T (mapSet ?V (AStrings (old @ sortDesc i)) inner1) raw"
  have step: "fst (conditionLoop raw (c # cs)) = fst (conditionLoop raw2 cs)"
    using i x old
    by (simp add: inner_def [symmetric] inner1_def [symmetric] raw2_def Let_def split_beta)
  have wf: "wf2 raw2"
    unfolding raw2_def by (rule wf2_update [OF Cons.prems(2) inner1_sorted])
  have lists: "list_all (\<lambda>tv. list_all (\<lambda>kv. holdsStrings (snd kv)) (snd tv)) raw2"
    unfolding raw2_def using Cons.prems(3) inner1_lists
    by (intro list_all_mapSet) (simp_all add: list_all_mapSet)
  have look: "lookup2 raw2 t v = (if t = ?T \<and> v = ?V then Some (AStrings (old @ sortDesc i)) else lookup2 raw t v)"
    for t v
    by (auto simp: raw2_def lookup2_def mapGet_mapSet inner1_get inner_at [unfolded lookup2_def])
  have at2: "stringsAt2 raw2 t v = stringsAt2 raw t v @ (if t = ?T \<and> v = ?V then sortDesc i else [])" for t v
    by (simp add: stringsAt2_def look old_is)
  from Cons.prems(1) have "list_all (\<lambda>c. holdsStrings (Values c)) cs" by simp
  from Cons.IH [OF this wf lists]
  obtain raw' where r: "fst (conditionLoop raw2 cs) = Inr raw'" "wf2 raw'"
    "list_all (\<lambda>tv. list_all (\<lambda>kv. holdsStrings (snd kv)) (snd tv)) raw'"
    "\<forall>t v. stringsAt2 raw' t v = stringsAt2 raw2 t v @ mergedValues t v cs"
    "\<forall>t v. (lookup2 raw' t v \<noteq> None)
           = (lookup2 raw2 t v \<noteq> None \<or> (t, v) \<in> (\<lambda>c. (Test c, Variable c)) ` set cs)"
    by blast
  have a: "stringsAt2 raw' t v = stringsAt2 raw t v @ mergedValues t v (c # cs)" for t v
    using r(4) at2 [of t v] i by simp
  have b: "(lookup2 raw' t v \<noteq> None)
           = (lookup2 raw t v \<noteq> None \<or> (t, v) \<in> (\<lambda>c. (Test c, Variable c)) ` set (c # cs))" for t v
    using r(5) look [of t v] by auto
  from r(1,2,3) step a b show ?case by auto
qed

lemma conditionLoop_leaves:
  "fst (conditionLoop raw cs) = Inr raw' \<Longrightarrow>
   list_all (\<lambda>tv. list_all (\<lambda>kv. holdsString (snd kv) \<or> holdsStrings (snd kv)) (snd tv)) raw \<Longrightarrow>
   list_all (\<lambda>tv. list_all (\<lambda>kv. holdsString (snd kv) \<or> holdsStrings (snd kv)) (snd tv)) raw'"
proof (induction cs arbitrary: raw)
  case Nil
  then show ?case by simp
next
  case (Cons c cs)
  define inner where "inner = (case mapGet raw (Test c) of None \<Rightarrow> [] | Some m \<Rightarrow> m)"
  have inner_ok: "list_all (\<lambda>kv. holdsString (snd kv) \<or> holdsStrings (snd kv)) inner"
    unfolding inner_def by (rule inner_of_raw [OF Cons.prems(2)])
  show ?case
  proof (cases "Values c")
    case (AString i)
    with Cons.prems(1)
    have "fst (conditionLoop (mapSet (Test c) (mapSet (Variable c) (AString i) inner) raw) cs) = Inr raw'"
      by (simp add: inner_def Let_def split_beta)
    moreover have "list_all (\<lambda>tv. list_all (\<lambda>kv. holdsString (snd kv) \<or> holdsStrings (snd kv)) (snd tv))
        (mapSet (Test c) (mapSet (Variable c) (AString i) inner) raw)"
      using Cons.prems(2) inner_ok by (intro list_all_mapSet) (simp_all add: list_all_mapSet)
    ultimately show ?thesis by (rule Cons.IH)
  next
    case (AStrings i)
    define inner1 where "inner1 = (if mapGet inner (Variable c) = None
        then mapSet (Variable c) (AStrings []) inner else inner)"
    have inner1_ok: "list_all (\<lambda>kv. holdsString (snd kv) \<or> holdsStrings (snd kv)) inner1"
      using inner_ok by (simp add: inner1_def list_all_mapSet)
    from Cons.prems(1) AStrings obtain old where
      "fst (conditionLoop (mapSet (Test c) (mapSet (Variable c) (AStrings (old @ sortDesc i)) inner1) raw) cs)
         = Inr raw'"
      by (auto simp: inner_def [symmetric] inner1_def [symmetric] Let_def split_beta
          split: option.splits any.splits)
    moreover have "list_all (\<lambda>tv. list_all (\<lambda>kv. holdsString (snd kv) \<or> holdsStrings (snd kv)) (snd tv))
        (mapSet (Test c) (mapSet (Variable c) (AStrings (old @ sortDesc i)) inner1) raw)"
      using Cons.prems(2) inner1_ok by (intro list_all_mapSet) (simp_all add: list_all_mapSet)
    ultimately show ?thesis by (rule Cons.IH)
  qed (use Cons.prems(1) in \<open>simp_all add: Let_def\<close>)
qed

subsection \<open>The condition decoder on what the encoder wrote\<close>

lemma conditionOfLeaf_entries:
  "conditionOfLeaf t v x = Inr cs \<Longrightarrow>
     \<forall>c\<in>set cs. Test c = t \<and> Variable c = v \<and> holdsStrings (Values c)"
  by (cases x) (auto split: sum.splits)

lemma leafEntries_entries:
  "\<forall>c\<in>set (leafEntries t kv). Test c = t \<and> Variable c = fst kv \<and> holdsStrings (Values c)"
proof (cases "conditionOfLeaf t (fst kv) (snd kv)")
  case (Inl e)
  then show ?thesis by (simp add: leafEntries_def)
next
  case (Inr cs)
  from conditionOfLeaf_entries [OF this] Inr show ?thesis by (simp add: leafEntries_def)
qed

lemma variablesLoop_exact:
  "list_all (\<lambda>kv. arrayOfStrings (snd kv)) kvs \<Longrightarrow>
     variablesLoop t kvs out = Inr (out @ concat (map (leafEntries t) kvs))"
proof (induction kvs arbitrary: out)
  case Nil
  then show ?case by simp
next
  case (Cons kv kvs)
  obtain v x where kv: "kv = (v, x)" by (cases kv)
  from Cons.prems kv have "arrayOfStrings x" by simp
  from conditionOfLeaf_ok [OF this, of t v] obtain cs where cs: "conditionOfLeaf t v x = Inr cs"
    by blast
  then have "leafEntries t kv = cs" by (simp add: leafEntries_def kv)
  with Cons cs kv show ?case by simp
qed

lemma testsLoop_exact:
  assumes rng: "isRangeOrder rng"
  shows "list_all (\<lambda>tv. list_all (\<lambda>kv. arrayOfStrings (snd kv)) (snd tv)) tests \<Longrightarrow>
     testsLoop rng tests out
       = Inr (out @ concat (map (\<lambda>tv. concat (map (leafEntries (fst tv)) (rangeMap rng (snd tv)))) tests))"
proof (induction tests arbitrary: out)
  case Nil
  then show ?case by simp
next
  case (Cons tv tests)
  obtain t inner where tv: "tv = (t, inner)" by (cases tv)
  from Cons.prems tv have "list_all (\<lambda>kv. arrayOfStrings (snd kv)) inner" by simp
  then have "list_all (\<lambda>kv. arrayOfStrings (snd kv)) (rangeMap rng inner)"
    using rangeMap_subset [OF rng, of inner] by (auto simp: list_all_iff)
  then have "variablesLoop t (rangeMap rng inner) out
      = Inr (out @ concat (map (leafEntries t) (rangeMap rng inner)))"
    by (rule variablesLoop_exact)
  with Cons tv show ?case by simp
qed

lemma reread_leaf:
  "holdsString x \<or> holdsStrings x \<Longrightarrow> arrayOfStrings (unmarshalAny (marshalAny x))"
  by (cases x) (auto simp: list_all_iff)

lemma unmarshalInnerMap_written:
  assumes "list_all (\<lambda>kv. holdsString (snd kv) \<or> holdsStrings (snd kv)) inner"
  shows "unmarshalInnerMap (marshalAny (AMap inner))
     = Inr (mapOfMembers [] (map (\<lambda>kv. (fst kv, unmarshalAny (marshalAny (snd kv)))) inner))"
  using strings_in_range [OF assms] by (simp add: split_beta comp_def)

lemma unmarshalTests_written:
  assumes "list_all (\<lambda>tv. list_all (\<lambda>kv. holdsString (snd kv) \<or> holdsStrings (snd kv)) (snd tv)) raw"
    and "arraysHoldStrings acc"
  shows "\<exists>data. unmarshalTests acc (map (\<lambda>(t, inner). (t, marshalAny (AMap inner))) raw) = Inr data
     \<and> arraysHoldStrings data"
  using assms
proof (induction raw arbitrary: acc)
  case Nil
  then show ?case by simp
next
  case (Cons tv raw)
  obtain t inner where tv: "tv = (t, inner)" by (cases tv)
  define inner' where "inner' = mapOfMembers [] (map (\<lambda>kv. (fst kv, unmarshalAny (marshalAny (snd kv)))) inner)"
  from Cons.prems(1) tv have leaves: "list_all (\<lambda>kv. holdsString (snd kv) \<or> holdsStrings (snd kv)) inner"
    by simp
  then have "list_all (\<lambda>kv. arrayOfStrings (snd kv))
      (map (\<lambda>kv. (fst kv, unmarshalAny (marshalAny (snd kv)))) inner)"
    by (auto simp: list_all_iff reread_leaf)
  then have "list_all (\<lambda>kv. arrayOfStrings (snd kv)) inner'"
    unfolding inner'_def by (intro list_all_mapOfMembers) simp_all
  with Cons.prems(2) have acc': "arraysHoldStrings (mapSet t inner' acc)"
    unfolding arraysHoldStrings_def by (intro list_all_mapSet) simp_all
  from Cons.prems(1) have "list_all (\<lambda>tv. list_all (\<lambda>kv. holdsString (snd kv) \<or> holdsStrings (snd kv)) (snd tv)) raw"
    by simp
  from Cons.IH [OF this acc'] show ?case
    by (simp add: tv unmarshalInnerMap_written [OF leaves] inner'_def del: marshalAny.simps)
qed

lemma unmarshalTests_sorted:
  assumes "sorted_wrt (<) (map fst (acc @ raw))"
    and "list_all (\<lambda>tv. sorted_wrt (<) (map fst (snd tv))) raw"
    and "list_all (\<lambda>tv. list_all (\<lambda>kv. holdsString (snd kv) \<or> holdsStrings (snd kv)) (snd tv)) raw"
  shows "unmarshalTests acc (map (\<lambda>(t, inner). (t, marshalAny (AMap inner))) raw)
     = Inr (acc @ rereadMap raw)"
  using assms
proof (induction raw arbitrary: acc)
  case Nil
  then show ?case by (simp add: rereadMap_def)
next
  case (Cons tv raw)
  obtain t inner where tv: "tv = (t, inner)" by (cases tv)
  let ?inner' = "map (\<lambda>kv. (fst kv, unmarshalAny (marshalAny (snd kv)))) inner"
  from Cons.prems(2) tv have "sorted_wrt (<) (map fst ?inner')" by (simp add: comp_def)
  then have inner: "mapOfMembers [] ?inner' = ?inner'" by (rule mapOfMembers_sorted)
  from Cons.prems(1) tv have "\<forall>k'\<in>fst ` set acc. k' < t"
    by (auto simp: sorted_wrt_append)
  then have set: "mapSet t ?inner' acc = acc @ [(t, ?inner')]" by (rule mapSet_largest)
  from Cons.prems(3) tv have leaves: "list_all (\<lambda>kv. holdsString (snd kv) \<or> holdsStrings (snd kv)) inner"
    by simp
  from Cons.prems tv have "sorted_wrt (<) (map fst ((acc @ [(t, ?inner')]) @ raw))"
    and "list_all (\<lambda>tv. sorted_wrt (<) (map fst (snd tv))) raw"
    and "list_all (\<lambda>tv. list_all (\<lambda>kv. holdsString (snd kv) \<or> holdsStrings (snd kv)) (snd tv)) raw"
    by simp_all
  from Cons.IH [OF this] show ?case
    by (simp add: tv unmarshalInnerMap_written [OF leaves] inner set rereadMap_def del: marshalAny.simps)
qed

lemma wf2_rereadMap: "wf2 raw \<Longrightarrow> wf2 (rereadMap raw)"
  by (auto simp: wf2_def rereadMap_def comp_def list_all_iff)

lemma lookup2_rereadMap:
  "lookup2 (rereadMap raw) t v = map_option (\<lambda>x. unmarshalAny (marshalAny x)) (lookup2 raw t v)"
proof -
  have inner: "map_of (map (\<lambda>kv. (fst kv, f (snd kv))) m) k = map_option f (map_of m k)"
    for f :: "any \<Rightarrow> any" and m k
    by (induction m) auto
  have outer: "map_of (map (\<lambda>tv. (fst tv, g (snd tv))) m) k = map_option g (map_of m k)"
    for g :: "(string \<times> any) list \<Rightarrow> (string \<times> any) list" and m k
    by (induction m) auto
  show ?thesis
    unfolding lookup2_def mapGet_def rereadMap_def outer
    by (cases "map_of raw t")
      (simp_all add: inner [of "\<lambda>x. unmarshalAny (marshalAny x)"])
qed

lemma sortDesc_idem: "sortDesc (sortDesc l) = sortDesc l"
proof -
  have "sort (rev (sort l)) = sort l"
    by (rule properties_for_sort) simp_all
  then show ?thesis by (simp add: sortDesc_def)
qed

lemma concat_select:
  "distinct (map fst m) \<Longrightarrow>
     concat (map (\<lambda>kv. if fst kv = k then f kv else []) m)
       = (case map_of m k of None \<Rightarrow> [] | Some x \<Rightarrow> f (k, x))"
proof (induction m)
  case Nil
  then show ?case by simp
next
  case (Cons a m)
  obtain k' x' where a: "a = (k', x')" by (cases a)
  show ?case
  proof (cases "k' = k")
    case True
    with Cons.prems a have "k \<notin> fst ` set m" by auto
    then have "concat (map (\<lambda>kv. if fst kv = k then f kv else []) m) = []"
      by (induction m) auto
    with True a show ?thesis by simp
  next
    case False
    with Cons a show ?thesis by simp
  qed
qed

lemma mergedValues_concat:
  "mergedValues t v (concat xss) = concat (map (mergedValues t v) xss)"
  by (induction xss) (simp_all add: mergedValues_append)

lemma mergedValues_leafEntries:
  "mergedValues t v (leafEntries t' kv)
     = (if t' = t \<and> fst kv = v then mergedValues t v (leafEntries t kv) else [])"
proof (cases "t' = t \<and> fst kv = v")
  case True
  then show ?thesis by simp
next
  case False
  with leafEntries_entries [of t' kv]
  have "(t, v) \<notin> (\<lambda>c. (Test c, Variable c)) ` set (leafEntries t' kv)" by auto
  from mergedValues_absent [OF this] show ?thesis using False by auto
qed

lemma mergedValues_decoded:
  assumes rng: "isRangeOrder rng" and wf: "wf2 data"
  shows "mergedValues t v
       (concat (map (\<lambda>tv. concat (map (leafEntries (fst tv)) (rangeMap rng (snd tv)))) (rangeMap rng data)))
     = (case lookup2 data t v of None \<Rightarrow> [] | Some x \<Rightarrow> mergedValues t v (leafEntries t (v, x)))"
proof -
  let ?M = "\<lambda>kv. mergedValues t v (leafEntries t kv)"
  let ?H = "\<lambda>tv. case map_of (snd tv) v of None \<Rightarrow> [] | Some x \<Rightarrow> ?M (v, x)"
  from wf have dd: "distinct (map fst data)" by (simp add: wf2_def strict_sorted_iff)
  have inner: "mergedValues t v (concat (map (leafEntries (fst tv)) (rangeMap rng (snd tv))))
      = (if fst tv = t then ?H tv else [])"
    if "tv \<in> set (rangeMap rng data)" for tv
  proof -
    from that rangeMap_subset [OF rng, of data] have "tv \<in> set data" by auto
    with wf have "sorted_wrt (<) (map fst (snd tv))" by (auto simp: wf2_def list_all_iff)
    then have di: "distinct (map fst (snd tv))" by (simp add: strict_sorted_iff)
    have "mergedValues t v (concat (map (leafEntries (fst tv)) (rangeMap rng (snd tv))))
        = concat (map (\<lambda>kv. mergedValues t v (leafEntries (fst tv) kv)) (rangeMap rng (snd tv)))"
      by (simp add: mergedValues_concat comp_def)
    also have "\<dots> = concat (map (\<lambda>kv. if fst tv = t \<and> fst kv = v then ?M kv else []) (rangeMap rng (snd tv)))"
      by (simp only: mergedValues_leafEntries [of t v "fst tv"])
    also have "\<dots> = (if fst tv = t then ?H tv else [])"
    proof (cases "fst tv = t")
      case True
      have "concat (map (\<lambda>kv. if fst kv = v then ?M kv else []) (rangeMap rng (snd tv)))
          = (case map_of (rangeMap rng (snd tv)) v of None \<Rightarrow> [] | Some x \<Rightarrow> ?M (v, x))"
        by (rule concat_select [OF distinct_rangeMap [OF rng di]])
      with True show ?thesis by (simp add: map_of_rangeMap(1) [OF rng di])
    next
      case False
      then show ?thesis by simp
    qed
    finally show ?thesis .
  qed
  have "mergedValues t v
       (concat (map (\<lambda>tv. concat (map (leafEntries (fst tv)) (rangeMap rng (snd tv)))) (rangeMap rng data)))
     = concat (map (\<lambda>tv. mergedValues t v (concat (map (leafEntries (fst tv)) (rangeMap rng (snd tv)))))
         (rangeMap rng data))"
    by (simp add: mergedValues_concat comp_def)
  also have "\<dots> = concat (map (\<lambda>tv. if fst tv = t then ?H tv else []) (rangeMap rng data))"
    using inner by (auto intro!: arg_cong [where f = concat] map_cong)
  also have "\<dots> = (case map_of (rangeMap rng data) t of None \<Rightarrow> [] | Some inner \<Rightarrow> ?H (t, inner))"
    by (rule concat_select [OF distinct_rangeMap [OF rng dd]])
  also have "\<dots> = (case lookup2 data t v of None \<Rightarrow> [] | Some x \<Rightarrow> ?M (v, x))"
    by (simp add: map_of_rangeMap(1) [OF rng dd] lookup2_def mapGet_def split: option.splits)
  finally show ?thesis .
qed

text \<open>What the condition encoder has written, the condition decoder reads without error.\<close>

lemma conditions_read_back:
  assumes "fst (IAMPolicyStatementConditionSet_MarshalJSON cs) = Inr jc" and rng: "isRangeOrder rng"
  shows "\<exists>cs'. IAMPolicyStatementConditionSet_UnmarshalJSON rng jc = Inr cs'"
proof -
  from assms(1) obtain raw where raw: "fst (conditionLoop [] cs) = Inr raw"
    and jc: "jc = JObject (map (\<lambda>(t, inner). (t, marshalAny (AMap inner))) raw)"
    by (auto simp: fst_ConditionSet_MarshalJSON split: sum.splits)
  have "list_all (\<lambda>tv. list_all (\<lambda>kv. holdsString (snd kv) \<or> holdsStrings (snd kv)) (snd tv)) raw"
    by (rule conditionLoop_leaves [OF raw]) simp
  from unmarshalTests_written [OF this, of "[]"]
  obtain data where data: "unmarshalTwoLevel jc = Inr data" and ok: "arraysHoldStrings data"
    by (auto simp: jc arraysHoldStrings_def)
  from ok have "list_all (\<lambda>tv. list_all (\<lambda>kv. arrayOfStrings (snd kv)) (snd tv)) (rangeMap rng data)"
    using rangeMap_subset [OF rng, of data]
    by (auto simp: arraysHoldStrings_def list_all_iff)
  from testsLoop_exact [OF rng this, of "[]"] data show ?thesis
    by (simp add: IAMPolicyStatementConditionSet_UnmarshalJSON_def)
qed

text \<open>For a stable set the decoded set is not empty and is written as the first one was.\<close>

lemma conditions_written_again:
  assumes ne: "cs \<noteq> []" and enc: "fst (IAMPolicyStatementConditionSet_MarshalJSON cs) = Inr jc"
    and rng: "isRangeOrder rng" and stable: "stableConditions cs"
    and dec: "IAMPolicyStatementConditionSet_UnmarshalJSON rng jc = Inr cs'"
  shows "fst (IAMPolicyStatementConditionSet_MarshalJSON cs') = Inr jc \<and> cs' \<noteq> []"
proof -
  from stable have lists: "list_all (\<lambda>c. holdsStrings (Values c)) cs"
    and dist: "distinct (map (\<lambda>c. (Test c, Variable c)) cs)"
    by (simp_all add: stableConditions_def)
  have wf0: "wf2 ([] :: (string \<times> (string \<times> any) list) list)" by (simp add: wf2_def)
  from conditionLoop_lists [OF lists wf0]
  obtain raw where raw: "fst (conditionLoop [] cs) = Inr raw" "wf2 raw"
    "list_all (\<lambda>tv. list_all (\<lambda>kv. holdsStrings (snd kv)) (snd tv)) raw"
    "\<forall>t v. stringsAt2 raw t v = mergedValues t v cs"
    "\<forall>t v. (lookup2 raw t v \<noteq> None) = ((t, v) \<in> (\<lambda>c. (Test c, Variable c)) ` set cs)"
    by (auto simp: stringsAt2_def lookup2_def mapGet_Nil)
  from enc raw(1) have jc: "jc = JObject (map (\<lambda>(t, inner). (t, marshalAny (AMap inner))) raw)"
    by (simp add: fst_ConditionSet_MarshalJSON)
  \<comment> \<open>every leaf of \<open>raw\<close> is a list in descending order\<close>
  have leaf: "\<exists>l. x = AStrings l \<and> sortDesc l = l" if "lookup2 raw t v = Some x" for t v x
  proof -
    from that obtain inner where "(t, inner) \<in> set raw" "(v, x) \<in> set inner"
      by (auto simp: lookup2_def mapGet_def split: option.splits dest: map_of_SomeD)
    with raw(3) have "holdsStrings x" by (fastforce simp: list_all_iff)
    then obtain l where l: "x = AStrings l" by (cases x) auto
    with that have at: "stringsAt2 raw t v = l" by (simp add: stringsAt2_def)
    from that raw(5) obtain c where c: "c \<in> set cs" "Test c = t" "Variable c = v" by force
    with lists obtain i where i: "Values c = AStrings i"
      by (cases "Values c") (auto simp: list_all_iff)
    from mergedValues_single [OF dist c(1) i] c have "mergedValues t v cs = sortDesc i" by simp
    with raw(4) at have "l = sortDesc i" by simp
    then have "sortDesc l = l" by (simp add: sortDesc_idem)
    with l show ?thesis by simp
  qed
  \<comment> \<open>reading\<close>
  from raw(2,3) have "sorted_wrt (<) (map fst ([] @ raw))"
    and "list_all (\<lambda>tv. sorted_wrt (<) (map fst (snd tv))) raw"
    and "list_all (\<lambda>tv. list_all (\<lambda>kv. holdsString (snd kv) \<or> holdsStrings (snd kv)) (snd tv)) raw"
    by (auto simp: wf2_def list_all_iff)
  from unmarshalTests_sorted [OF this] have data: "unmarshalTwoLevel jc = Inr (rereadMap raw)"
    by (simp add: jc)
  let ?data = "rereadMap raw"
  have wfd: "wf2 ?data" by (rule wf2_rereadMap [OF raw(2)])
  have dleaf: "\<exists>l. lookup2 raw t v = Some (AStrings l) \<and> x = ASlice (map AString l) \<and> sortDesc l = l"
    if "lookup2 ?data t v = Some x" for t v x
  proof -
    from that obtain y where y: "lookup2 raw t v = Some y" "x = unmarshalAny (marshalAny y)"
      by (auto simp: lookup2_rereadMap)
    from leaf [OF y(1)] y show ?thesis by (auto simp: comp_def)
  qed
  have arrays: "arraysHoldStrings ?data"
  proof -
    have "arrayOfStrings x" if "(t, inner) \<in> set ?data" "(v, x) \<in> set inner" for t inner v x
    proof -
      from wfd have "distinct (map fst ?data)" by (simp add: wf2_def strict_sorted_iff)
      with that(1) have "map_of ?data t = Some inner" by simp
      moreover from wfd that(1) have "distinct (map fst inner)"
        by (auto simp: wf2_def list_all_iff strict_sorted_iff)
      with that(2) have "map_of inner v = Some x" by simp
      ultimately have "lookup2 ?data t v = Some x" by (simp add: lookup2_def mapGet_def)
      from dleaf [OF this] show ?thesis by (auto simp: list_all_iff)
    qed
    then show ?thesis by (fastforce simp: arraysHoldStrings_def list_all_iff)
  qed
  then have "list_all (\<lambda>tv. list_all (\<lambda>kv. arrayOfStrings (snd kv)) (snd tv)) (rangeMap rng ?data)"
    using rangeMap_subset [OF rng, of ?data]
    by (auto simp: arraysHoldStrings_def list_all_iff)
  from testsLoop_exact [OF rng this, of "[]"] data dec
  have cs': "cs' = concat (map (\<lambda>tv. concat (map (leafEntries (fst tv)) (rangeMap rng (snd tv))))
      (rangeMap rng ?data))"
    by (simp add: IAMPolicyStatementConditionSet_UnmarshalJSON_def)
  have lists': "list_all (\<lambda>c. holdsStrings (Values c)) cs'"
    unfolding cs' using leafEntries_entries by (fastforce simp: list_all_iff)
  \<comment> \<open>which pairs the decoded set has\<close>
  from testsLoop_ok [OF rng \<open>list_all (\<lambda>tv. list_all (\<lambda>kv. arrayOfStrings (snd kv)) (snd tv)) (rangeMap rng ?data)\<close>, of "[]"]
    testsLoop_exact [OF rng \<open>list_all (\<lambda>tv. list_all (\<lambda>kv. arrayOfStrings (snd kv)) (snd tv)) (rangeMap rng ?data)\<close>, of "[]"]
  have pairs0: "(\<exists>c\<in>set cs'. Test c = t \<and> Variable c = v)
      \<longleftrightarrow> (\<exists>inner x. (t, inner) \<in> set (rangeMap rng ?data) \<and> mapGet inner v = Some x
            \<and> (holdsString x \<or> holdsSlice x))" for t v
    by (simp add: cs')
  have pairs: "((t, v) \<in> (\<lambda>c. (Test c, Variable c)) ` set cs') = (lookup2 raw t v \<noteq> None)" for t v
  proof -
    have "((t, v) \<in> (\<lambda>c. (Test c, Variable c)) ` set cs') = (\<exists>c\<in>set cs'. Test c = t \<and> Variable c = v)"
      by auto
    also have "\<dots> = (\<exists>x. lookup2 ?data t v = Some x \<and> (holdsString x \<or> holdsSlice x))"
      unfolding pairs0 using set_rangeMap [OF rng, of ?data]
      by (auto simp: lookup2_def split: option.splits)
    also have "\<dots> = (lookup2 ?data t v \<noteq> None)"
      using dleaf [of t v] by auto
    also have "\<dots> = (lookup2 raw t v \<noteq> None)"
      by (simp add: lookup2_rereadMap)
    finally show ?thesis .
  qed
  \<comment> \<open>what the decoded set merges for a pair\<close>
  have merged: "mergedValues t v cs' = stringsAt2 raw t v" for t v
  proof (cases "lookup2 ?data t v")
    case None
    then have "lookup2 raw t v = None" by (simp add: lookup2_rereadMap)
    with None show ?thesis
      by (simp add: cs' mergedValues_decoded [OF rng wfd] stringsAt2_def)
  next
    case (Some x)
    from dleaf [OF this] obtain l where l: "lookup2 raw t v = Some (AStrings l)"
      "x = ASlice (map AString l)" "sortDesc l = l"
      by blast
    have "assertStrings (map AString l) = Inr l" by (induction l) auto
    then have "leafEntries t (v, x) = [\<lparr>Test = t, Variable = v, Values = AStrings l\<rparr>]"
      by (simp add: leafEntries_def l(2))
    with Some l show ?thesis
      by (simp add: cs' mergedValues_decoded [OF rng wfd] stringsAt2_def)
  qed
  \<comment> \<open>writing again\<close>
  from conditionLoop_lists [OF lists' wf0]
  obtain raw2 where raw2: "fst (conditionLoop [] cs') = Inr raw2" "wf2 raw2"
    "list_all (\<lambda>tv. list_all (\<lambda>kv. holdsStrings (snd kv)) (snd tv)) raw2"
    "\<forall>t v. stringsAt2 raw2 t v = mergedValues t v cs'"
    "\<forall>t v. (lookup2 raw2 t v \<noteq> None) = ((t, v) \<in> (\<lambda>c. (Test c, Variable c)) ` set cs')"
    by (auto simp: stringsAt2_def lookup2_def mapGet_Nil)
  have same: "lookup2 raw2 t v = lookup2 raw t v" for t v
  proof (cases "lookup2 raw t v")
    case None
    with pairs [of t v] have "(t, v) \<notin> (\<lambda>c. (Test c, Variable c)) ` set cs'" by simp
    with raw2(5) [rule_format, of t v] have "lookup2 raw2 t v = None" by simp
    with None show ?thesis by simp
  next
    case (Some x)
    from leaf [OF this] obtain l where l: "x = AStrings l" by blast
    from Some pairs [of t v] have "(t, v) \<in> (\<lambda>c. (Test c, Variable c)) ` set cs'" by simp
    with raw2(5) [rule_format, of t v] obtain y where y: "lookup2 raw2 t v = Some y" by auto
    then obtain inner where "(t, inner) \<in> set raw2" "(v, y) \<in> set inner"
      by (auto simp: lookup2_def mapGet_def split: option.splits dest: map_of_SomeD)
    with raw2(3) have "holdsStrings y" by (fastforce simp: list_all_iff)
    then obtain l' where l': "y = AStrings l'" by (cases y) auto
    from raw2(4) merged [of t v] have "stringsAt2 raw2 t v = stringsAt2 raw t v" by simp
    with Some l y l' show ?thesis by (simp add: stringsAt2_def)
  qed
  have "raw2 = raw" by (rule wf2_ext [OF raw2(2) raw(2) same])
  with raw2(1) jc have again: "fst (IAMPolicyStatementConditionSet_MarshalJSON cs') = Inr jc"
    by (simp add: fst_ConditionSet_MarshalJSON)
  from ne obtain c where "c \<in> set cs" by (cases cs) auto
  then have "(Test c, Variable c) \<in> (\<lambda>c. (Test c, Variable c)) ` set cs" by auto
  with raw(5) have "lookup2 raw (Test c) (Variable c) \<noteq> None" by simp
  with pairs [of "Test c" "Variable c"] have "cs' \<noteq> []" by auto
  with again show ?thesis by simp
qed

subsection \<open>Statements\<close>

lemma foldName_names:
  "foldName ''Sid'' = ''SID''" "foldName ''Effect'' = ''EFFECT''" "foldName ''Action'' = ''ACTION''"
  "foldName ''NotAction'' = ''NOTACTION''" "foldName ''Resource'' = ''RESOURCE''"
  "foldName ''NotResource'' = ''NOTRESOURCE''" "foldName ''Principal'' = ''PRINCIPAL''"
  "foldName ''NotPrincipal'' = ''NOTPRINCIPAL''" "foldName ''Condition'' = ''CONDITION''"
  "foldName ''Version'' = ''VERSION''" "foldName ''Id'' = ''ID''" "foldName ''Statement'' = ''STATEMENT''"
  by code_simp+

lemma decode_Sid:
  "decodeStatementMembers rng [(''Sid'', JString x)] (s, saved) = Inr (s\<lparr>Sid := x\<rparr>, saved)"
  by (simp add: decodeStatementMember_def foldName_names del: foldName.simps)

lemma decode_Effect:
  "Effect s = [] \<Longrightarrow>
     decodeStatementMembers rng (omitemptyString ''Effect'' e) (s, saved) = Inr (s\<lparr>Effect := e\<rparr>, saved)"
  by (simp add: omitemptyString_def decodeStatementMember_def foldName_names del: foldName.simps)

lemma decode_Action:
  "Actions s = ANil \<Longrightarrow> \<not> unsupportedValue a \<Longrightarrow>
     decodeStatementMembers rng (omitemptyAny ''Action'' a) (s, saved)
       = Inr (s\<lparr>Actions := unmarshalAny (marshalAny a)\<rparr>, saved)"
  by (simp add: omitemptyAny_def decodeStatementMember_def foldName_names decodeInterface_in_range
      outOfRange_marshalAny del: foldName.simps)

lemma decode_NotAction:
  "NotActions s = ANil \<Longrightarrow> \<not> unsupportedValue a \<Longrightarrow>
     decodeStatementMembers rng (omitemptyAny ''NotAction'' a) (s, saved)
       = Inr (s\<lparr>NotActions := unmarshalAny (marshalAny a)\<rparr>, saved)"
  by (simp add: omitemptyAny_def decodeStatementMember_def foldName_names decodeInterface_in_range
      outOfRange_marshalAny del: foldName.simps)

lemma decode_Resource:
  "Resources s = ANil \<Longrightarrow> \<not> unsupportedValue a \<Longrightarrow>
     decodeStatementMembers rng (omitemptyAny ''Resource'' a) (s, saved)
       = Inr (s\<lparr>Resources := unmarshalAny (marshalAny a)\<rparr>, saved)"
  by (simp add: omitemptyAny_def decodeStatementMember_def foldName_names decodeInterface_in_range
      outOfRange_marshalAny del: foldName.simps)

lemma decode_NotResource:
  "NotResources s = ANil \<Longrightarrow> \<not> unsupportedValue a \<Longrightarrow>
     decodeStatementMembers rng (omitemptyAny ''NotResource'' a) (s, saved)
       = Inr (s\<lparr>NotResources := unmarshalAny (marshalAny a)\<rparr>, saved)"
  by (simp add: omitemptyAny_def decodeStatementMember_def foldName_names decodeInterface_in_range
      outOfRange_marshalAny del: foldName.simps)

lemma omitemptyAny_reread:
  "wfAny a \<Longrightarrow> \<not> unsupportedValue a \<Longrightarrow>
     omitemptyAny name (unmarshalAny (marshalAny a)) = omitemptyAny name a"
  by (simp add: omitemptyAny_def reread_any unmarshalAny_ANil marshalAny_JNull outOfRange_marshalAny)

lemma encodeStatement_supported:
  assumes "encodeStatement s = Inr j"
  shows "\<not> unsupportedValue (Actions s)" "\<not> unsupportedValue (NotActions s)"
    "\<not> unsupportedValue (Resources s)" "\<not> unsupportedValue (NotResources s)"
  using assms by (auto simp: encodeStatement_def split: if_splits)

text \<open>A principal member: what is read from it, and that it is written again when stable.\<close>

lemma principal_member_read:
  assumes rng: "isRangeOrder rng" and enc: "omitemptyPrincipals name ps = Inr pm"
  shows "\<exists>ps'. (pm = [] \<and> ps' = []
         \<or> (\<exists>jp. pm = [(name, jp)] \<and> IAMPolicyStatementPrincipalSet_UnmarshalJSON rng jp = Inr ps'))
      \<and> (stablePrincipals ps \<longrightarrow> omitemptyPrincipals name ps' = Inr pm)"
proof (cases "ps = []")
  case True
  with enc show ?thesis by (auto simp: omitemptyPrincipals_def)
next
  case False
  with enc obtain jp where jp: "fst (IAMPolicyStatementPrincipalSet_MarshalJSON ps) = Inr jp"
    and pm: "pm = [(name, jp)]"
    by (auto simp: omitemptyPrincipals_def split: sum.splits)
  from principals_read_back [OF False jp rng]
  obtain ps' where ps': "IAMPolicyStatementPrincipalSet_UnmarshalJSON rng jp = Inr ps'" "ps' \<noteq> []"
    by blast
  have "omitemptyPrincipals name ps' = Inr pm" if "stablePrincipals ps"
    using principals_written_again [OF False jp rng that ps'(1)] ps'(2)
    by (simp add: omitemptyPrincipals_def pm)
  with ps'(1) pm show ?thesis by blast
qed

lemma condition_member_read:
  assumes rng: "isRangeOrder rng" and enc: "omitemptyConditions name cs = Inr cm"
  shows "\<exists>cs'. (cm = [] \<and> cs' = []
         \<or> (\<exists>jc. cm = [(name, jc)] \<and> IAMPolicyStatementConditionSet_UnmarshalJSON rng jc = Inr cs'))
      \<and> (stableConditions cs \<longrightarrow> omitemptyConditions name cs' = Inr cm)"
proof (cases "cs = []")
  case True
  with enc show ?thesis by (auto simp: omitemptyConditions_def)
next
  case False
  with enc obtain jc where jc: "fst (IAMPolicyStatementConditionSet_MarshalJSON cs) = Inr jc"
    and cm: "cm = [(name, jc)]"
    by (auto simp: omitemptyConditions_def split: sum.splits)
  from conditions_read_back [OF jc rng]
  obtain cs' where cs': "IAMPolicyStatementConditionSet_UnmarshalJSON rng jc = Inr cs'"
    by blast
  have "omitemptyConditions name cs' = Inr cm" if "stableConditions cs"
    using conditions_written_again [OF False jc rng that cs']
    by (simp add: omitemptyConditions_def cm)
  with cs' cm show ?thesis by blast
qed

lemma decode_Principal:
  assumes "pm = [] \<and> ps' = []
         \<or> (\<exists>jp. pm = [(''Principal'', jp)] \<and> IAMPolicyStatementPrincipalSet_UnmarshalJSON rng jp = Inr ps')"
    and "Principals s = []"
  shows "decodeStatementMembers rng pm (s, saved) = Inr (s\<lparr>Principals := ps'\<rparr>, saved)"
  using assms by (auto simp: decodeStatementMember_def foldName_names simp del: foldName.simps)

lemma decode_NotPrincipal:
  assumes "pm = [] \<and> ps' = []
         \<or> (\<exists>jp. pm = [(''NotPrincipal'', jp)] \<and> IAMPolicyStatementPrincipalSet_UnmarshalJSON rng jp = Inr ps')"
    and "NotPrincipals s = []"
  shows "decodeStatementMembers rng pm (s, saved) = Inr (s\<lparr>NotPrincipals := ps'\<rparr>, saved)"
  using assms by (auto simp: decodeStatementMember_def foldName_names simp del: foldName.simps)

lemma decode_Condition:
  assumes "cm = [] \<and> cs' = []
         \<or> (\<exists>jc. cm = [(''Condition'', jc)] \<and> IAMPolicyStatementConditionSet_UnmarshalJSON rng jc = Inr cs')"
    and "Conditions s = []"
  shows "decodeStatementMembers rng cm (s, saved) = Inr (s\<lparr>Conditions := cs'\<rparr>, saved)"
  using assms by (auto simp: decodeStatementMember_def foldName_names simp del: foldName.simps)

lemma statement_read_back:
  assumes rng: "isRangeOrder rng" and enc: "encodeStatement s = Inr j"
  shows "\<exists>s'. decodeStatementPointer rng j (None, saved) = Inr (Some s', saved)
     \<and> (stableStatement s \<longrightarrow> encodeStatement s' = Inr j)"
proof -
  note sup = encodeStatement_supported [OF enc]
  from encodeStatement_Inr [OF enc] obtain pm npm cm where
    pm: "omitemptyPrincipals ''Principal'' (Principals s) = Inr pm"
    and npm: "omitemptyPrincipals ''NotPrincipal'' (NotPrincipals s) = Inr npm"
    and cm: "omitemptyConditions ''Condition'' (Conditions s) = Inr cm"
    and j: "j = JObject
          ([(''Sid'', JString (Sid s))]
           @ omitemptyString ''Effect'' (Effect s)
           @ omitemptyAny ''Action'' (Actions s)
           @ omitemptyAny ''NotAction'' (NotActions s)
           @ omitemptyAny ''Resource'' (Resources s)
           @ omitemptyAny ''NotResource'' (NotResources s)
           @ pm @ npm @ cm)"
    by blast
  from principal_member_read [OF rng pm] obtain ps' where
    ps': "pm = [] \<and> ps' = []
         \<or> (\<exists>jp. pm = [(''Principal'', jp)] \<and> IAMPolicyStatementPrincipalSet_UnmarshalJSON rng jp = Inr ps')"
    and ps'': "stablePrincipals (Principals s) \<longrightarrow> omitemptyPrincipals ''Principal'' ps' = Inr pm"
    by blast
  from principal_member_read [OF rng npm] obtain nps' where
    nps': "npm = [] \<and> nps' = []
         \<or> (\<exists>jp. npm = [(''NotPrincipal'', jp)] \<and> IAMPolicyStatementPrincipalSet_UnmarshalJSON rng jp = Inr nps')"
    and nps'': "stablePrincipals (NotPrincipals s) \<longrightarrow> omitemptyPrincipals ''NotPrincipal'' nps' = Inr npm"
    by blast
  from condition_member_read [OF rng cm] obtain cs' where
    cs': "cm = [] \<and> cs' = []
         \<or> (\<exists>jc. cm = [(''Condition'', jc)] \<and> IAMPolicyStatementConditionSet_UnmarshalJSON rng jc = Inr cs')"
    and cs'': "stableConditions (Conditions s) \<longrightarrow> omitemptyConditions ''Condition'' cs' = Inr cm"
    by blast
  define s' where "s' = \<lparr>Sid = Sid s, Effect = Effect s,
      Actions = unmarshalAny (marshalAny (Actions s)),
      NotActions = unmarshalAny (marshalAny (NotActions s)),
      Resources = unmarshalAny (marshalAny (Resources s)),
      NotResources = unmarshalAny (marshalAny (NotResources s)),
      Principals = ps', NotPrincipals = nps', Conditions = cs'\<rparr>"
  have read: "decodeStatementMembers rng
          ([(''Sid'', JString (Sid s))]
           @ omitemptyString ''Effect'' (Effect s)
           @ omitemptyAny ''Action'' (Actions s)
           @ omitemptyAny ''NotAction'' (NotActions s)
           @ omitemptyAny ''Resource'' (Resources s)
           @ omitemptyAny ''NotResource'' (NotResources s)
           @ pm @ npm @ cm) (zeroStatement, saved) = Inr (s', saved)"
    unfolding decodeStatementMembers_append
    by (simp add: decode_Sid decode_Effect decode_Action decode_NotAction decode_Resource
        decode_NotResource sup decode_Principal [OF ps'] decode_NotPrincipal [OF nps']
        decode_Condition [OF cs'] zeroStatement_def s'_def
        del: decodeStatementMembers.simps foldName.simps)
  then have dec: "decodeStatementPointer rng j (None, saved) = Inr (Some s', saved)"
    by (simp add: j pointee_def del: decodeStatementMembers.simps foldName.simps)
  have again: "encodeStatement s' = Inr j" if "stableStatement s"
  proof -
    from that ps'' nps'' cs'' have
      "omitemptyPrincipals ''Principal'' (Principals s') = Inr pm"
      "omitemptyPrincipals ''NotPrincipal'' (NotPrincipals s') = Inr npm"
      "omitemptyConditions ''Condition'' (Conditions s') = Inr cm"
      by (simp_all add: stableStatement_def s'_def)
    moreover from that have
      "omitemptyAny ''Action'' (Actions s') = omitemptyAny ''Action'' (Actions s)"
      "omitemptyAny ''NotAction'' (NotActions s') = omitemptyAny ''NotAction'' (NotActions s)"
      "omitemptyAny ''Resource'' (Resources s') = omitemptyAny ''Resource'' (Resources s)"
      "omitemptyAny ''NotResource'' (NotResources s') = omitemptyAny ''NotResource'' (NotResources s)"
      using sup by (simp_all add: stableStatement_def s'_def omitemptyAny_reread)
    moreover have "Sid s' = Sid s" "Effect s' = Effect s" by (simp_all add: s'_def)
    moreover have "\<not> unsupportedValue (Actions s')" "\<not> unsupportedValue (NotActions s')"
      "\<not> unsupportedValue (Resources s')" "\<not> unsupportedValue (NotResources s')"
      by (simp_all add: s'_def supported_unmarshalAny)
    ultimately show ?thesis by (simp add: encodeStatement_def j)
  qed
  from dec again show ?thesis by blast
qed

subsection \<open>Documents\<close>

lemma statements_read_back:
  assumes rng: "isRangeOrder rng"
  shows "encodeStatements ss = Inr js \<Longrightarrow>
     \<exists>ss'. decodeStatementArray rng js [] saved = Inr ((ss', []), saved)
       \<and> (list_all (\<lambda>p. case p of None \<Rightarrow> True | Some s \<Rightarrow> stableStatement s) ss
            \<longrightarrow> encodeStatements ss' = Inr js)"
proof (induction ss arbitrary: js)
  case Nil
  then show ?case by auto
next
  case (Cons p ss)
  show ?case
  proof (cases p)
    case None
    with Cons.prems obtain js0 where js0: "encodeStatements ss = Inr js0" "js = JNull # js0"
      by (auto split: sum.splits)
    from Cons.IH [OF js0(1)] obtain ss' where
      "decodeStatementArray rng js0 [] saved = Inr ((ss', []), saved)"
      "list_all (\<lambda>p. case p of None \<Rightarrow> True | Some s \<Rightarrow> stableStatement s) ss
            \<longrightarrow> encodeStatements ss' = Inr js0"
      by blast
    then have "decodeStatementArray rng js [] saved = Inr ((None # ss', []), saved)
       \<and> (list_all (\<lambda>p. case p of None \<Rightarrow> True | Some s \<Rightarrow> stableStatement s) (p # ss)
            \<longrightarrow> encodeStatements (None # ss') = Inr js)"
      by (simp add: js0(2) None)
    then show ?thesis by blast
  next
    case (Some s)
    with Cons.prems obtain j js0 where j: "encodeStatement s = Inr j"
      and js0: "encodeStatements ss = Inr js0" "js = j # js0"
      by (auto split: sum.splits)
    from statement_read_back [OF rng j, of saved] obtain s' where
      s': "decodeStatementPointer rng j (None, saved) = Inr (Some s', saved)"
      "stableStatement s \<longrightarrow> encodeStatement s' = Inr j"
      by blast
    from Cons.IH [OF js0(1)] obtain ss' where
      ss': "decodeStatementArray rng js0 [] saved = Inr ((ss', []), saved)"
      "list_all (\<lambda>p. case p of None \<Rightarrow> True | Some s \<Rightarrow> stableStatement s) ss
            \<longrightarrow> encodeStatements ss' = Inr js0"
      by blast
    from s' ss' have "decodeStatementArray rng js [] saved = Inr ((Some s' # ss', []), saved)
       \<and> (list_all (\<lambda>p. case p of None \<Rightarrow> True | Some s \<Rightarrow> stableStatement s) (p # ss)
            \<longrightarrow> encodeStatements (Some s' # ss') = Inr js)"
      by (simp add: js0(2) Some)
    then show ?thesis by blast
  qed
qed

lemma decode_Version:
  "Version d = [] \<Longrightarrow>
     decodeDocMembers rng (omitemptyString ''Version'' x) (d, spare, saved)
       = Inr (d\<lparr>Version := x\<rparr>, spare, saved)"
  by (simp add: omitemptyString_def decodeDocMember_def foldName_names del: foldName.simps)

lemma decode_Id:
  "Id_doc d = [] \<Longrightarrow>
     decodeDocMembers rng (omitemptyString ''Id'' x) (d, spare, saved)
       = Inr (d\<lparr>Id_doc := x\<rparr>, spare, saved)"
  by (simp add: omitemptyString_def decodeDocMember_def foldName_names del: foldName.simps)

lemma decodeDocMembers_append:
  "decodeDocMembers rng (xs @ ys) st =
     (case decodeDocMembers rng xs st of
        Inl e \<Rightarrow> Inl e
      | Inr st' \<Rightarrow> decodeDocMembers rng ys st')"
  by (induction xs arbitrary: st) (auto split: sum.splits)

lemma decode_Statement:
  assumes "decodeStatementArray rng js [] saved = Inr ((ss', []), saved)" and "Statements d = None"
  shows "decodeDocMembers rng [(''Statement'', JArray js)] (d, [], saved)
     = Inr (d\<lparr>Statements := Some ss'\<rparr>, [], saved)"
proof (cases js)
  case Nil
  with assms(1) have "ss' = []" by simp
  with Nil show ?thesis
    by (simp add: decodeDocMember_def foldName_names del: foldName.simps)
next
  case (Cons j js')
  with assms show ?thesis
    by (simp add: decodeDocMember_def foldName_names del: foldName.simps decodeStatementArray.simps)
qed

text \<open>
  C1, as the code has it. Whatever \<open>Encode\<close> writes, \<open>Decode\<close> reads without error, in
  every order of map iteration. When, in every statement, each principal set is empty,
  the wildcard or made of bare strings with no type twice, and each condition set is
  made of lists with no pair of test and variable twice, encoding the decoded document
  succeeds and returns the same text as the first encoding.
\<close>

theorem canonical_form_is_fixed_point:
  assumes rng: "isRangeOrder rng" and enc: "Encode d = Inr j"
  shows "\<exists>d'. Decode rng j = Inr d' \<and> (stableDoc d \<longrightarrow> Encode d' = Inr j)"
proof (cases "Statements d")
  case None
  with enc have j: "j = JObject (omitemptyString ''Version'' (Version d)
      @ omitemptyString ''Id'' (Id_doc d) @ [(''Statement'', JNull)])"
    by (simp add: Encode_def)
  have "decodeDocMembers rng (omitemptyString ''Version'' (Version d)
      @ omitemptyString ''Id'' (Id_doc d) @ [(''Statement'', JNull)]) (zeroDoc, [], None) = Inr (d, [], None)"
    unfolding decodeDocMembers_append
    by (simp add: decode_Version decode_Id zeroDoc_def decodeDocMember_def foldName_names None
        del: foldName.simps)
  then have "Decode rng j = Inr d" by (simp add: Decode_def j)
  with enc show ?thesis by blast
next
  case (Some ss)
  with enc obtain js where js: "encodeStatements ss = Inr js"
    and j: "j = JObject (omitemptyString ''Version'' (Version d)
      @ omitemptyString ''Id'' (Id_doc d) @ [(''Statement'', JArray js)])"
    by (auto simp: Encode_def split: sum.splits)
  from statements_read_back [OF rng js, of None] obtain ss' where
    ss': "decodeStatementArray rng js [] None = Inr ((ss', []), None)"
    "list_all (\<lambda>p. case p of None \<Rightarrow> True | Some s \<Rightarrow> stableStatement s) ss
            \<longrightarrow> encodeStatements ss' = Inr js"
    by blast
  define d' where "d' = \<lparr>Version = Version d, Id_doc = Id_doc d, Statements = Some ss'\<rparr>"
  have "decodeDocMembers rng (omitemptyString ''Version'' (Version d)
      @ omitemptyString ''Id'' (Id_doc d) @ [(''Statement'', JArray js)]) (zeroDoc, [], None) = Inr (d', [], None)"
    unfolding decodeDocMembers_append
    by (simp add: decode_Version decode_Id decode_Statement [OF ss'(1)] zeroDoc_def d'_def
        del: decodeDocMembers.simps)
  then have dec: "Decode rng j = Inr d'" by (simp add: Decode_def j)
  have "Encode d' = Inr j" if "stableDoc d"
    using that ss'(2) by (simp add: stableDoc_def Some Encode_def d'_def j)
  with dec show ?thesis by blast
qed

theorem canonical_form_is_fixed_point_witness:
  "isRangeOrder rev
   \<and> Encode \<lparr>Version = ''2012-10-17'', Id_doc = [], Statements = Some
        [Some (zeroStatement\<lparr>Sid := ''S1'', Effect := ''Allow'',
           Actions := AStrings [''s3:PutObject'', ''s3:GetObject''],
           Principals := [\<lparr>Type = ''Service'', Identifiers = AString ''s''\<rparr>,
                          \<lparr>Type = ''AWS'', Identifiers = AString ''arn:a''\<rparr>],
           Conditions := [\<lparr>Test = ''StringEquals'', Variable = ''key'', Values = AStrings [''a'', ''b'']\<rparr>]\<rparr>),
         None]\<rparr>
     = Inr (JObject
       [(''Version'', JString ''2012-10-17''),
        (''Statement'', JArray
          [JObject
            [(''Sid'', JString ''S1''), (''Effect'', JString ''Allow''),
             (''Action'', JArray [JString ''s3:PutObject'', JString ''s3:GetObject'']),
             (''Principal'', JObject [(''AWS'', JString ''arn:a''), (''Service'', JString ''s'')]),
             (''Condition'', JObject [(''StringEquals'',
                 JObject [(''key'', JArray [JString ''b'', JString ''a''])])])],
           JNull])])
   \<and> (\<exists>d'. Decode rev (JObject
       [(''Version'', JString ''2012-10-17''),
        (''Statement'', JArray
          [JObject
            [(''Sid'', JString ''S1''), (''Effect'', JString ''Allow''),
             (''Action'', JArray [JString ''s3:PutObject'', JString ''s3:GetObject'']),
             (''Principal'', JObject [(''AWS'', JString ''arn:a''), (''Service'', JString ''s'')]),
             (''Condition'', JObject [(''StringEquals'',
                 JObject [(''key'', JArray [JString ''b'', JString ''a''])])])],
           JNull])]) = Inr d'
       \<and> Encode d' = Inr (JObject
       [(''Version'', JString ''2012-10-17''),
        (''Statement'', JArray
          [JObject
            [(''Sid'', JString ''S1''), (''Effect'', JString ''Allow''),
             (''Action'', JArray [JString ''s3:PutObject'', JString ''s3:GetObject'']),
             (''Principal'', JObject [(''AWS'', JString ''arn:a''), (''Service'', JString ''s'')]),
             (''Condition'', JObject [(''StringEquals'',
                 JObject [(''key'', JArray [JString ''b'', JString ''a''])])])],
           JNull])]))"
proof -
  let ?d = "\<lparr>Version = ''2012-10-17'', Id_doc = [], Statements = Some
        [Some (zeroStatement\<lparr>Sid := ''S1'', Effect := ''Allow'',
           Actions := AStrings [''s3:PutObject'', ''s3:GetObject''],
           Principals := [\<lparr>Type = ''Service'', Identifiers = AString ''s''\<rparr>,
                          \<lparr>Type = ''AWS'', Identifiers = AString ''arn:a''\<rparr>],
           Conditions := [\<lparr>Test = ''StringEquals'', Variable = ''key'', Values = AStrings [''a'', ''b'']\<rparr>]\<rparr>),
         None]\<rparr>"
  let ?j = "JObject
       [(''Version'', JString ''2012-10-17''),
        (''Statement'', JArray
          [JObject
            [(''Sid'', JString ''S1''), (''Effect'', JString ''Allow''),
             (''Action'', JArray [JString ''s3:PutObject'', JString ''s3:GetObject'']),
             (''Principal'', JObject [(''AWS'', JString ''arn:a''), (''Service'', JString ''s'')]),
             (''Condition'', JObject [(''StringEquals'',
                 JObject [(''key'', JArray [JString ''b'', JString ''a''])])])],
           JNull])]"
  have h1: "isRangeOrder rev" by (simp add: isRangeOrder_def)
  have h2: "Encode ?d = Inr ?j" by code_simp
  have h3: "stableDoc ?d" by code_simp
  from canonical_form_is_fixed_point [OF h1 h2] h3
  have "\<exists>d'. Decode rev ?j = Inr d' \<and> Encode d' = Inr ?j" by blast
  with h1 h2 show ?thesis by blast
qed

text \<open>
  The claim C1 as worded fails. A condition whose value is a bare string is written as a
  string, read back as a one-element list and written again as an array, so the second
  text differs from the first. A principal whose identifiers are a list is read back as
  a \<^verbatim>\<open>[]interface{}\<close>, which makes the second encoding panic.
\<close>

theorem second_encoding_differs:
  "Encode \<lparr>Version = [], Id_doc = [], Statements = Some
      [Some (zeroStatement\<lparr>Conditions :=
         [\<lparr>Test = ''StringEquals'', Variable = ''key'', Values = AString ''x''\<rparr>]\<rparr>)]\<rparr>
     = Inr (JObject [(''Statement'', JArray [JObject [(''Sid'', JString []),
          (''Condition'', JObject [(''StringEquals'', JObject [(''key'', JString ''x'')])])]])])
   \<and> Decode (\<lambda>ks. ks) (JObject [(''Statement'', JArray [JObject [(''Sid'', JString []),
          (''Condition'', JObject [(''StringEquals'', JObject [(''key'', JString ''x'')])])]])])
     = Inr \<lparr>Version = [], Id_doc = [], Statements = Some
      [Some (zeroStatement\<lparr>Conditions :=
         [\<lparr>Test = ''StringEquals'', Variable = ''key'', Values = AStrings [''x'']\<rparr>]\<rparr>)]\<rparr>
   \<and> Encode \<lparr>Version = [], Id_doc = [], Statements = Some
      [Some (zeroStatement\<lparr>Conditions :=
         [\<lparr>Test = ''StringEquals'', Variable = ''key'', Values = AStrings [''x'']\<rparr>]\<rparr>)]\<rparr>
     = Inr (JObject [(''Statement'', JArray [JObject [(''Sid'', JString []),
          (''Condition'', JObject [(''StringEquals'', JObject [(''key'', JArray [JString ''x''])])])]])])
   \<and> JObject [(''Statement'', JArray [JObject [(''Sid'', JString []),
          (''Condition'', JObject [(''StringEquals'', JObject [(''key'', JArray [JString ''x''])])])]])]
     \<noteq> JObject [(''Statement'', JArray [JObject [(''Sid'', JString []),
          (''Condition'', JObject [(''StringEquals'', JObject [(''key'', JString ''x'')])])]])]
   \<and> Encode \<lparr>Version = [], Id_doc = [], Statements = Some
      [Some (zeroStatement\<lparr>Principals :=
         [\<lparr>Type = ''AWS'', Identifiers = AStrings [''arn:a'', ''arn:b'']\<rparr>]\<rparr>)]\<rparr>
     = Inr (JObject [(''Statement'', JArray [JObject [(''Sid'', JString []),
          (''Principal'', JObject [(''AWS'', JArray [JString ''arn:b'', JString ''arn:a''])])]])])
   \<and> Decode (\<lambda>ks. ks) (JObject [(''Statement'', JArray [JObject [(''Sid'', JString []),
          (''Principal'', JObject [(''AWS'', JArray [JString ''arn:b'', JString ''arn:a''])])]])])
     = Inr \<lparr>Version = [], Id_doc = [], Statements = Some
      [Some (zeroStatement\<lparr>Principals :=
         [\<lparr>Type = ''AWS'', Identifiers = ASlice [AString ''arn:b'', AString ''arn:a'']\<rparr>]\<rparr>)]\<rparr>
   \<and> Encode \<lparr>Version = [], Id_doc = [], Statements = Some
      [Some (zeroStatement\<lparr>Principals :=
         [\<lparr>Type = ''AWS'', Identifiers = ASlice [AString ''arn:b'', AString ''arn:a'']\<rparr>]\<rparr>)]\<rparr>
     = Inl PanicUnsupportedPrincipal"
  by code_simp

end
